theory Spec2Isabelle
  imports Complex_Main
begin

section \<open>Numbers, errors and array reads\<close>

text \<open>
  The program is JavaScript: the component
  \<^verbatim>\<open>frontend/src/components/UnifiedVisualization.vue\<close> and the module of network
  helpers that it imports as \<^verbatim>\<open>utils.js\<close>. A JavaScript number is a double; the
  model takes its value, a \<^typ>\<open>real\<close>, and compares values as the program does. The
  playback clock, whose sum accumulates over the frames, rounds the result of every
  operation to the nearest double (\<open>double\<close> below). The arithmetic of the interpolation
  and of the colour scale is taken exact. Array indices and lengths are \<^typ>\<open>int\<close>. A
  read \<^verbatim>\<open>a[i][k]\<close> at an index outside the array evaluates \<^verbatim>\<open>undefined[k]\<close>,
  which throws a TypeError; every such read is a branch of the model.
\<close>

datatype js_error = TypeError

text \<open>\<^verbatim>\<open>path[i]\<close> followed by a property read of the element.\<close>

definition elemAt :: "'a list \<Rightarrow> int \<Rightarrow> js_error + 'a" where
  "elemAt xs i = (if 0 \<le> i \<and> i < int (length xs) then Inr (xs ! nat i) else Inl TypeError)"

text \<open>
  \<^verbatim>\<open>x >> 1\<close> converts its left operand to a signed 32-bit integer (ToInt32: reduce
  modulo \<open>2^32\<close> into \<open>[-2^31, 2^31)\<close>) and shifts with sign propagation, that is,
  divides by two rounding down.
\<close>

definition toInt32 :: "int \<Rightarrow> int" where
  "toInt32 x = (let m = x mod 4294967296 in if 2147483648 \<le> m then m - 4294967296 else m)"

definition shr1 :: "int \<Rightarrow> int" where
  "shr1 x = toInt32 x div 2"

subsection \<open>Doubles\<close>

text \<open>
  A finite double is a number \<open>m * 2^(e - 52)\<close> with an integer \<open>m\<close> of magnitude below
  \<open>2^53\<close> and an exponent \<open>e\<close> from \<open>-1022\<close> to 1023. An operation of the program on
  doubles returns the double nearest to the exact result, and of two nearest ones the
  one with the even \<open>m\<close>. \<open>nearest_even\<close> is this rounding to an integer. \<open>halvings y\<close>
  counts how often \<open>y\<close> is halved until it is below 2, and \<open>exponent x\<close> is the exponent
  of the doubles next to \<open>x\<close>: the \<open>e\<close> with \<open>2^e \<le> |x| < 2^(e + 1)\<close>, and \<open>-1022\<close> for all
  \<open>x\<close> below \<open>2^(-1022)\<close>, where the doubles are equally spaced. \<open>ulp x\<close> is the distance
  between these doubles, and \<open>double x\<close> is the double nearest to \<open>x\<close>. A result of
  magnitude \<open>2^1024\<close> or more is \<^verbatim>\<open>Infinity\<close> in the program and is not modelled: the
  statements about the clock are for timestamps, speeds and times that keep every
  result far below.
\<close>

definition nearest_even :: "real \<Rightarrow> int" where
  "nearest_even x =
     (let n = \<lfloor>x\<rfloor>; d = x - real_of_int n
      in if d < 1/2 then n else if 1/2 < d then n + 1 else if even n then n else n + 1)"

function halvings :: "real \<Rightarrow> nat" where
  "halvings y = (if 2 \<le> y then Suc (halvings (y / 2)) else 0)"
  by pat_completeness auto
termination
proof (relation "measure (\<lambda>y. nat \<lceil>y\<rceil>)")
  show "wf (measure (\<lambda>y. nat \<lceil>y\<rceil>))" by simp
next
  fix y :: real
  assume "2 \<le> y"
  then have "\<lceil>y / 2\<rceil> < \<lceil>y\<rceil>" by linarith
  moreover have "0 < \<lceil>y\<rceil>" using \<open>2 \<le> y\<close> by linarith
  ultimately show "(y / 2, y) \<in> measure (\<lambda>y. nat \<lceil>y\<rceil>)" by simp
qed

declare halvings.simps [simp del]

definition exponent :: "real \<Rightarrow> int" where
  "exponent x = int (halvings (\<bar>x\<bar> * 2 ^ 1022)) - 1022"

definition ulp :: "real \<Rightarrow> real" where
  "ulp x = 2 powr (real_of_int (exponent x) - 52)"

definition double :: "real \<Rightarrow> real" where
  "double x = (if x = 0 then 0 else real_of_int (nearest_even (x / ulp x)) * ulp x)"

section \<open>Trajectories and interpolateSample\<close>

text \<open>
  A path entry is the array \<^verbatim>\<open>[lon, lat, t, speed?, ratio?, angle?]\<close>; the last three
  entries may be missing (\<^verbatim>\<open>undefined\<close> or \<^verbatim>\<open>null\<close>), which is \<open>None\<close>.
\<close>

record sample =
  p_lon :: real
  p_lat :: real
  p_t :: real
  p_spd :: "real option"
  p_ratio :: "real option"
  p_angle :: "real option"

record trip =
  trip_id :: string
  path :: "sample list"

text \<open>The object \<^verbatim>\<open>{ pos: [lon, lat], spd_mps, ratio, angle }\<close> that is returned.\<close>

record point =
  pos :: "real \<times> real"
  spd_mps :: real
  ratio :: real
  angle :: real

text \<open>\<^verbatim>\<open>v || 0\<close>: a missing value and the number 0 both give 0.\<close>

definition or0 :: "real option \<Rightarrow> real" where
  "or0 v = (case v of None \<Rightarrow> 0 | Some x \<Rightarrow> (if x = 0 then 0 else x))"

text \<open>The local function \<^verbatim>\<open>getPoint\<close> (lines 80-85).\<close>

definition getPoint :: "sample \<Rightarrow> point" where
  "getPoint p =
     \<lparr> pos = (p_lon p, p_lat p),
       spd_mps = or0 (p_spd p),
       ratio = (case p_ratio p of Some r \<Rightarrow> r | None \<Rightarrow> 0),
       angle = or0 (p_angle p) \<rparr>"

text \<open>
  The loop of lines 90-94, started at \<open>lo = 0\<close>, \<open>hi = n - 1\<close>:
  \<^verbatim>\<open>while (lo + 1 < hi) { const mid = (lo + hi) >> 1;
     if (path[mid][2] <= t) lo = mid; else hi = mid }\<close>.
  \<open>None\<close> is a loop that never exits, \<open>Some (Inl e)\<close> a throw, and
  \<open>Some (Inr (lo, hi))\<close> the indices at the exit.
\<close>

partial_function (option) bsearch ::
  "sample list \<Rightarrow> real \<Rightarrow> int \<Rightarrow> int \<Rightarrow> (js_error + int \<times> int) option" where
  "bsearch ps t lo hi =
     (if lo + 1 < hi then
        (let mid = shr1 (lo + hi) in
         if 0 \<le> mid \<and> mid < int (length ps) then
           (if p_t (ps ! nat mid) \<le> t then bsearch ps t mid hi
            else bsearch ps t lo mid)
         else Some (Inl TypeError))
      else Some (Inr (lo, hi)))"

text \<open>Lines 96-107: the interpolation between the two entries the loop selected.\<close>

definition interpolate :: "sample \<Rightarrow> sample \<Rightarrow> real \<Rightarrow> point" where
  "interpolate p0 p1 t =
     (let dt = p_t p1 - p_t p0;
          f = (if dt > 0 then (t - p_t p0) / dt else 0);
          lon = p_lon p0 + (p_lon p1 - p_lon p0) * f;
          lat = p_lat p0 + (p_lat p1 - p_lat p0) * f;
          spd = or0 (p_spd p0) + (or0 (p_spd p1) - or0 (p_spd p0)) * f;
          r0 = p_ratio p0;
          r1 = p_ratio p1;
          rat = (case (r0, r1) of
                   (Some a, Some b) \<Rightarrow> a + (b - a) * f
                 | (Some a, None) \<Rightarrow> a
                 | (None, Some b) \<Rightarrow> b
                 | (None, None) \<Rightarrow> 0);
          ang = or0 (p_angle p0) + (or0 (p_angle p1) - or0 (p_angle p0)) * f
      in \<lparr> pos = (lon, lat), spd_mps = spd, ratio = rat, angle = ang \<rparr>)"

text \<open>
  \<^verbatim>\<open>interpolateSample(d, t)\<close> (lines 74-108). The result \<open>Some (Inr None)\<close> is
  \<^verbatim>\<open>return null\<close>, \<open>Some (Inr (Some s))\<close> a returned object, \<open>Some (Inl e)\<close> a
  throw and \<open>None\<close> a call that does not return.
\<close>

definition interpolateSample :: "trip \<Rightarrow> real \<Rightarrow> (js_error + point option) option" where
  "interpolateSample d t =
     (let n = int (length (path d)) in
      if n = 0 then Some (Inr None)
      else if t < p_t (path d ! 0) \<or> t > p_t (path d ! nat (n - 1)) then Some (Inr None)
      else if t = p_t (path d ! 0) then Some (Inr (Some (getPoint (path d ! 0))))
      else if t = p_t (path d ! nat (n - 1)) then
        Some (Inr (Some (getPoint (path d ! nat (n - 1)))))
      else
        (case bsearch (path d) t 0 (n - 1) of
           None \<Rightarrow> None
         | Some (Inl e) \<Rightarrow> Some (Inl e)
         | Some (Inr (lo, hi)) \<Rightarrow>
             (case (elemAt (path d) lo, elemAt (path d) hi) of
                (Inr p0, Inr p1) \<Rightarrow> Some (Inr (Some (interpolate p0 p1 t)))
              | _ \<Rightarrow> Some (Inl TypeError))))"

text \<open>
  The loop invariant: both indices are inside the array and the query time lies between
  their timestamps, at or after the lower one and strictly before the upper one.
\<close>

definition bracket :: "sample list \<Rightarrow> real \<Rightarrow> int \<Rightarrow> int \<Rightarrow> bool" where
  "bracket ps t lo hi \<longleftrightarrow>
     0 \<le> lo \<and> lo < int (length ps) \<and> 0 \<le> hi \<and> hi < int (length ps)
     \<and> p_t (ps ! nat lo) \<le> t \<and> t < p_t (ps ! nat hi)"

subsection \<open>Example trajectories\<close>

text \<open>The scenario of the specification: \<^verbatim>\<open>[[0,0,0,10,0.2,0],[1,1,10,20,0.8,90]]\<close>.\<close>

definition scenario_trip :: trip where
  "scenario_trip =
     \<lparr> trip_id = ''veh0'',
       path = [\<lparr>p_lon = 0, p_lat = 0, p_t = 0, p_spd = Some 10, p_ratio = Some (1/5),
                 p_angle = Some 0\<rparr>,
               \<lparr>p_lon = 1, p_lat = 1, p_t = 10, p_spd = Some 20, p_ratio = Some (4/5),
                 p_angle = Some 90\<rparr>] \<rparr>"

text \<open>Three samples at the times 0, 4 and 8; only the middle one has a ratio.\<close>

definition three_trip :: trip where
  "three_trip =
     \<lparr> trip_id = ''veh1'',
       path = [\<lparr>p_lon = 0, p_lat = 0, p_t = 0, p_spd = None, p_ratio = None, p_angle = None\<rparr>,
               \<lparr>p_lon = 2, p_lat = 8, p_t = 4, p_spd = None, p_ratio = Some (1/2),
                 p_angle = None\<rparr>,
               \<lparr>p_lon = 6, p_lat = 4, p_t = 8, p_spd = None, p_ratio = None,
                 p_angle = None\<rparr>] \<rparr>"


text \<open>Two samples without any optional entry.\<close>

definition bare_trip :: trip where
  "bare_trip =
     \<lparr> trip_id = ''veh4'',
       path = [\<lparr>p_lon = 0, p_lat = 0, p_t = 0, p_spd = None, p_ratio = None, p_angle = None\<rparr>,
               \<lparr>p_lon = 4, p_lat = 2, p_t = 2, p_spd = None, p_ratio = None,
                 p_angle = None\<rparr>] \<rparr>"

text \<open>A single sample at time 7.\<close>

definition single_trip :: trip where
  "single_trip =
     \<lparr> trip_id = ''veh3'',
       path = [\<lparr>p_lon = 3, p_lat = 5, p_t = 7, p_spd = None, p_ratio = None,
                 p_angle = Some 30\<rparr>] \<rparr>"

text \<open>A single sample at time 7 with all six entries.\<close>

definition measured_trip :: trip where
  "measured_trip =
     \<lparr> trip_id = ''veh6'',
       path = [\<lparr>p_lon = 3, p_lat = 5, p_t = 7, p_spd = Some 12, p_ratio = Some (2/5),
                 p_angle = Some 30\<rparr>] \<rparr>"

text \<open>
  A trajectory from time 0 to the time \<open>3.000000000000001\<close>, that is, the double
  \<open>3377699720527873 / 2^50\<close>.
\<close>

definition three_second_trip :: trip where
  "three_second_trip =
     \<lparr> trip_id = ''veh7'',
       path = [\<lparr>p_lon = 0, p_lat = 0, p_t = 0, p_spd = None, p_ratio = None, p_angle = None\<rparr>,
               \<lparr>p_lon = 1, p_lat = 1, p_t = 3377699720527873 / 1125899906842624,
                 p_spd = None, p_ratio = None, p_angle = None\<rparr>] \<rparr>"

text \<open>
  A path of \<open>2^31 + 1\<close> entries: \<open>2^31\<close> at time 0 and a last one at time 2. It is sorted
  and its length is below the bound \<open>2^32 - 1\<close> of a JavaScript array.
\<close>

definition overflow_path :: "sample list" where
  "overflow_path =
     replicate 2147483648
       \<lparr>p_lon = 0, p_lat = 0, p_t = 0, p_spd = None, p_ratio = None, p_angle = None\<rparr>
     @ [\<lparr>p_lon = 1, p_lat = 1, p_t = 2, p_spd = None, p_ratio = None, p_angle = None\<rparr>]"

subsection \<open>Vocabulary for positions\<close>



section \<open>colorFromFraction\<close>

text \<open>\<^verbatim>\<open>clamp(v, a, b)\<close> is \<^verbatim>\<open>Math.max(a, Math.min(b, v))\<close> (lines 110-112).\<close>

definition clamp :: "real \<Rightarrow> real \<Rightarrow> real \<Rightarrow> real" where
  "clamp v a b = max a (min b v)"

text \<open>\<^verbatim>\<open>Math.round\<close> rounds to the nearest integer, a half upwards.\<close>

definition Math_round :: "real \<Rightarrow> int" where
  "Math_round x = \<lfloor>x + 1/2\<rfloor>"

definition stops :: "real list list" where
  "stops = [[215, 25, 28], [255, 255, 191], [26, 150, 65]]"

text \<open>
  Lines 119-123: the colour inside the segment \<open>seg\<close> at the local fraction \<open>lt\<close>. The
  reads \<^verbatim>\<open>stops[seg]\<close> and \<^verbatim>\<open>stops[seg + 1]\<close> give \<^verbatim>\<open>undefined\<close> outside the
  table, and the read of a channel of \<^verbatim>\<open>undefined\<close> throws.
\<close>

definition segmentColor :: "int \<Rightarrow> real \<Rightarrow> js_error + int list" where
  "segmentColor seg lt =
     (case (elemAt stops seg, elemAt stops (seg + 1)) of
        (Inr a, Inr b) \<Rightarrow>
          (let r = Math_round (a ! 0 + (b ! 0 - a ! 0) * lt);
               g = Math_round (a ! 1 + (b ! 1 - a ! 1) * lt);
               bl = Math_round (a ! 2 + (b ! 2 - a ! 2) * lt)
           in Inr [r, g, bl, 220])
      | _ \<Rightarrow> Inl TypeError)"

text \<open>\<^verbatim>\<open>colorFromFraction(frac)\<close> (lines 114-124).\<close>

definition colorFromFraction :: "real \<Rightarrow> js_error + int list" where
  "colorFromFraction fraction =
     (let t = clamp fraction 0 1;
          seg = min 1 \<lfloor>t * 2\<rfloor>;
          lt = (t * 2) - real_of_int seg
      in segmentColor seg lt)"

section \<open>The component: playback clock and rendering engines\<close>

datatype view_mode = Mode2D | Mode3D

text \<open>
  The reactive and module-level variables of the component (lines 51-68), followed by
  the part of the browser they act on. An engine instance (a Mapbox map or a DeckGL
  object) and an animation frame request are known by a number; \<open>fresh\<close> is the next
  unused one. \<open>live\<close> holds the engine instances that were constructed and not yet
  destroyed by \<^verbatim>\<open>map.remove()\<close> or \<^verbatim>\<open>deckgl.finalize()\<close>, \<open>frames\<close> the animation
  frame requests that are pending, and \<open>timeouts\<close> counts the pending 100 ms timers, each
  of which resumes one call of \<^verbatim>\<open>switchMode\<close>. \<open>mapboxgl\<close> and \<open>mapboxOverlay\<close> tell
  whether \<^verbatim>\<open>window.mapboxgl\<close> and \<^verbatim>\<open>window.deck.MapboxOverlay\<close> are loaded.
  The variable \<^verbatim>\<open>map\<close> is the field \<open>map'\<close>.
\<close>

record component =
  mode :: view_mode
  currentTime :: real
  playing :: bool
  speed :: real
  minTime :: real
  maxTime :: real
  map' :: "nat option"
  deckgl :: "nat option"
  deckOverlay :: "nat option"
  animationFrameId :: "nat option"
  lastTimestamp :: "real option"
  live :: "nat list"
  frames :: "nat list"
  timeouts :: nat
  fresh :: nat
  mapboxgl :: bool
  mapboxOverlay :: bool

definition requestAnimationFrame :: "component \<Rightarrow> nat \<times> component" where
  "requestAnimationFrame st =
     (fresh st, st\<lparr>frames := frames st @ [fresh st], fresh := fresh st + 1\<rparr>)"

definition cancelAnimationFrame :: "nat \<Rightarrow> component \<Rightarrow> component" where
  "cancelAnimationFrame h st = st\<lparr>frames := removeAll h (frames st)\<rparr>"

text \<open>
  \<^verbatim>\<open>animate(timestamp)\<close> (lines 366-385), the callback of an animation frame. The call
  of \<^verbatim>\<open>updateVisualization\<close> hands the layers of the current time to the rendering
  engine and changes none of the fields below. The subtraction, the division, the
  product and the sum are those of doubles: each result is rounded.
\<close>

definition animate :: "real \<Rightarrow> component \<Rightarrow> component" where
  "animate timestamp st =
     (if \<not> playing st then
        (let (h, st1) = requestAnimationFrame st
         in st1\<lparr>animationFrameId := Some h, lastTimestamp := Some timestamp\<rparr>)
      else
        (let last = (case lastTimestamp st of None \<Rightarrow> timestamp | Some l \<Rightarrow> l);
             deltaTime = double (double (timestamp - last) / 1000);
             st1 = st\<lparr>lastTimestamp := Some timestamp,
                      currentTime := double (currentTime st + double (deltaTime * speed st))\<rparr>;
             st2 = (if currentTime st1 > maxTime st1
                    then st1\<lparr>currentTime := minTime st1\<rparr> else st1);
             (h, st3) = requestAnimationFrame st2
         in st3\<lparr>animationFrameId := Some h\<rparr>))"

text \<open>
  An animation frame of the browser at the time \<open>timestamp\<close> (in milliseconds): the oldest
  pending request leaves the list of requests and its callback, which is \<^verbatim>\<open>animate\<close>
  for every request of the component, runs. Without a pending request nothing runs.
\<close>

definition frame :: "real \<Rightarrow> component \<Rightarrow> component" where
  "frame timestamp st =
     (case frames st of [] \<Rightarrow> st | h # hs \<Rightarrow> animate timestamp (st\<lparr>frames := hs\<rparr>))"

text \<open>A sequence of animation frames, given by their timestamps.\<close>

definition ticks :: "real list \<Rightarrow> component \<Rightarrow> component" where
  "ticks ts st = foldl (\<lambda>s t. frame t s) st ts"

text \<open>The first \<open>n\<close> of a sequence of frames 100 ms apart: 0, 100, 200 and so on.\<close>

definition frames_100ms :: "nat \<Rightarrow> real list" where
  "frames_100ms n = map (\<lambda>k. 100 * real k) [0..<n]"

text \<open>
  \<^verbatim>\<open>recomputeRanges\<close> (lines 126-139). The accumulators start at \<^verbatim>\<open>Infinity\<close> and
  \<^verbatim>\<open>-Infinity\<close>, which is \<open>None\<close> here; a timestamp is below the one and above the other.
\<close>

definition range_step :: "real option \<times> real option \<Rightarrow> sample \<Rightarrow> real option \<times> real option" where
  "range_step acc p =
     (let ts = p_t p;
          minT = (case fst acc of None \<Rightarrow> Some ts
                  | Some m \<Rightarrow> if ts < m then Some ts else Some m);
          maxT = (case snd acc of None \<Rightarrow> Some ts
                  | Some m \<Rightarrow> if ts > m then Some ts else Some m)
      in (minT, maxT))"

definition recomputeRanges :: "trip list \<Rightarrow> component \<Rightarrow> component" where
  "recomputeRanges trips st =
     (let acc = foldl (\<lambda>a t. foldl range_step a (path t)) (None, None) trips;
          (minT, maxT) = (case acc of (Some a, Some b) \<Rightarrow> (a, b) | _ \<Rightarrow> (0, 3600))
      in st\<lparr>minTime := minT, maxTime := maxT, currentTime := minT\<rparr>)"

text \<open>
  \<^verbatim>\<open>init2D\<close> (lines 443-462) constructs a DeckGL object, \<^verbatim>\<open>init3D\<close> (lines 389-441) a
  Mapbox map and its deck overlay, unless the Mapbox script is missing. The overlay is a
  control of the map and goes with it. \<^verbatim>\<open>cleanup3D\<close> and \<^verbatim>\<open>cleanup2D\<close> (lines
  464-477) destroy the engine the variable refers to, if any.
\<close>

definition init2D :: "component \<Rightarrow> component" where
  "init2D st =
     st\<lparr>deckgl := Some (fresh st), live := live st @ [fresh st], fresh := fresh st + 1\<rparr>"

definition init3D :: "component \<Rightarrow> component" where
  "init3D st =
     (if \<not> mapboxgl st then st
      else
        (let st1 = st\<lparr>map' := Some (fresh st), live := live st @ [fresh st],
                       fresh := fresh st + 1\<rparr>
         in if mapboxOverlay st1
            then st1\<lparr>deckOverlay := Some (fresh st1), fresh := fresh st1 + 1\<rparr>
            else st1))"

definition cleanup3D :: "component \<Rightarrow> component" where
  "cleanup3D st =
     (let st1 = (case map' st of
                   Some h \<Rightarrow> st\<lparr>live := removeAll h (live st), map' := None\<rparr>
                 | None \<Rightarrow> st)
      in st1\<lparr>deckOverlay := None\<rparr>)"

definition cleanup2D :: "component \<Rightarrow> component" where
  "cleanup2D st =
     (case deckgl st of
        Some h \<Rightarrow> st\<lparr>live := removeAll h (live st), deckgl := None\<rparr>
      | None \<Rightarrow> st)"

text \<open>
  \<^verbatim>\<open>switchMode\<close> (lines 479-503) is an async function. It runs without interruption
  up to \<^verbatim>\<open>await new Promise(resolve => setTimeout(resolve, 100))\<close>
  (\<open>switchMode_begin\<close>: cancel the pending frame, destroy the engines, start the timer)
  and is resumed when that timer fires (\<open>switchMode_resume\<close>: construct the engine of
  the mode the component has by then, request a frame). \<^verbatim>\<open>init3D\<close> contains no
  \<^verbatim>\<open>await\<close>, so nothing runs between it and the request of the frame. The test
  \<^verbatim>\<open>if (animationFrameId)\<close> fails for \<^verbatim>\<open>null\<close> and for the number 0.
\<close>

definition switchMode_begin :: "component \<Rightarrow> component" where
  "switchMode_begin st =
     (let st1 = (case animationFrameId st of
                   Some h \<Rightarrow> if h \<noteq> 0
                             then (cancelAnimationFrame h st)\<lparr>animationFrameId := None\<rparr>
                             else st
                 | None \<Rightarrow> st);
          st2 = st1\<lparr>lastTimestamp := None\<rparr>;
          st3 = cleanup2D (cleanup3D st2)
      in st3\<lparr>timeouts := timeouts st3 + 1\<rparr>)"

definition switchMode_resume :: "component \<Rightarrow> component" where
  "switchMode_resume st =
     (let st1 = (if mode st = Mode3D then init3D st else init2D st);
          (h, st2) = requestAnimationFrame st1
      in st2\<lparr>animationFrameId := Some h\<rparr>)"

text \<open>
  The events. \<open>select_mode m\<close>: the user picks \<open>m\<close> in the mode selector; if this changes
  \<^verbatim>\<open>mode\<close>, the watcher of line 538 calls \<^verbatim>\<open>switchMode()\<close> and does not wait for
  it. \<open>timeout_fires\<close>: the oldest pending timer fires and resumes its call of
  \<^verbatim>\<open>switchMode\<close>; every pending timer resumes the same code and the timers have the
  same delay, so they fire in the order they were started and a counter is enough.
\<close>

definition select_mode :: "view_mode \<Rightarrow> component \<Rightarrow> component" where
  "select_mode m st = (if m = mode st then st else switchMode_begin (st\<lparr>mode := m\<rparr>))"

definition timeout_fires :: "component \<Rightarrow> component" where
  "timeout_fires st =
     (if timeouts st = 0 then st else switchMode_resume (st\<lparr>timeouts := timeouts st - 1\<rparr>))"

text \<open>
  The hook \<^verbatim>\<open>onMounted\<close> (lines 507-518); of \<^verbatim>\<open>loadTrips\<close> it keeps the call of
  \<^verbatim>\<open>recomputeRanges\<close>. \<open>created\<close> is the component before it is mounted: the initial
  values of lines 51-68, nothing live or pending, both scripts loaded.
\<close>

definition onMounted :: "trip list \<Rightarrow> component \<Rightarrow> component" where
  "onMounted trips st =
     (let st1 = recomputeRanges trips st;
          st2 = (if mode st1 = Mode3D then init3D st1 else init2D st1);
          (h, st3) = requestAnimationFrame st2
      in st3\<lparr>animationFrameId := Some h\<rparr>)"

definition created :: component where
  "created =
     \<lparr> mode = Mode2D, currentTime = 0, playing = True, speed = 1, minTime = 0, maxTime = 3600,
       map' = None, deckgl = None, deckOverlay = None, animationFrameId = None,
       lastTimestamp = None, live = [], frames = [], timeouts = 0, fresh = 1,
       mapboxgl = True, mapboxOverlay = True \<rparr>"

text \<open>
  Two runs from the mounted component. In \<open>rapid_switches\<close> the user selects 3D and then
  2D again before the timer of the first switch has fired, and then both timers fire.
  In \<open>spaced_switches\<close> the timer of the first switch fires before the second selection.
\<close>

definition rapid_switches :: component where
  "rapid_switches =
     timeout_fires (timeout_fires (select_mode Mode2D (select_mode Mode3D
       (onMounted [] created))))"

definition spaced_switches :: component where
  "spaced_switches =
     timeout_fires (select_mode Mode2D (timeout_fires (select_mode Mode3D
       (onMounted [] created))))"

text \<open>
  A component is settled when no call of \<^verbatim>\<open>switchMode\<close> is waiting for its timer and
  the live engine instances are those the variables \<^verbatim>\<open>map\<close> and \<^verbatim>\<open>deckgl\<close>
  refer to, at most one in all.
\<close>

definition settled :: "component \<Rightarrow> bool" where
  "settled st \<longleftrightarrow>
     timeouts st = 0 \<and> length (live st) \<le> 1
     \<and> set (live st) = set_option (map' st) \<union> set_option (deckgl st)"

section \<open>getVehiclesData3D\<close>

text \<open>An entry of a vehicle layer: \<^verbatim>\<open>{ position, angle, id }\<close>.\<close>

record vehicle =
  position :: "real \<times> real \<times> real"
  v_angle :: real
  v_id :: string

text \<open>
  What the loop over the trips reads and writes: the local object
  \<^verbatim>\<open>vehiclesByCarModel\<close>, the module-level map \<^verbatim>\<open>vehicleCarAssignments\<close>, and the
  number of calls of \<^verbatim>\<open>Math.random\<close> made so far. The values that \<^verbatim>\<open>Math.random\<close>
  returns are a parameter \<open>random\<close>: its \<open>i\<close>-th call returns \<open>random i\<close>.
\<close>

record vehicles =
  vehiclesByCarModel :: "int \<rightharpoonup> vehicle list"
  vehicleCarAssignments :: "string \<rightharpoonup> int"
  randomCalls :: nat

text \<open>
  The callback of \<^verbatim>\<open>trips.forEach\<close> (lines 197-217). The first component of the result
  is the error of a throw, if any; the state is the one reached at that moment.
  \<^verbatim>\<open>vehiclesByCarModel[carNumber].push\<close> throws when the object has no such key.
\<close>

definition visit ::
  "real \<Rightarrow> (nat \<Rightarrow> real) \<Rightarrow> trip \<Rightarrow> vehicles \<Rightarrow> (js_error option \<times> vehicles) option" where
  "visit now random trip st =
     (case interpolateSample trip now of
        None \<Rightarrow> None
      | Some (Inl e) \<Rightarrow> Some (Some e, st)
      | Some (Inr None) \<Rightarrow> Some (None, st)
      | Some (Inr (Some sample)) \<Rightarrow>
          (let (lon, lat) = pos sample;
               elevation = 0;
               st1 = (case vehicleCarAssignments st (trip_id trip) of
                        None \<Rightarrow>
                          st\<lparr>vehicleCarAssignments :=
                                (vehicleCarAssignments st)
                                  (trip_id trip \<mapsto> \<lfloor>random (randomCalls st) * 7\<rfloor> + 1),
                              randomCalls := randomCalls st + 1\<rparr>
                      | Some c \<Rightarrow> st)
           in case vehicleCarAssignments st1 (trip_id trip) of
                None \<Rightarrow> Some (Some TypeError, st1)
              | Some carNumber \<Rightarrow>
                  (case vehiclesByCarModel st1 carNumber of
                     None \<Rightarrow> Some (Some TypeError, st1)
                   | Some vs \<Rightarrow>
                       Some (None, st1\<lparr>vehiclesByCarModel :=
                         (vehiclesByCarModel st1)(carNumber \<mapsto> vs @
                            [\<lparr>position = (lon, lat, elevation),
                              v_angle = (if angle sample + 180 = 0 then 0
                                         else angle sample + 180),
                              v_id = trip_id trip\<rparr>])\<rparr>))))"

fun forEach :: "(trip \<Rightarrow> vehicles \<Rightarrow> (js_error option \<times> vehicles) option) \<Rightarrow> trip list
    \<Rightarrow> vehicles \<Rightarrow> (js_error option \<times> vehicles) option" where
  "forEach f [] st = Some (None, st)"
| "forEach f (trip # rest) st =
     (case f trip st of
        None \<Rightarrow> None
      | Some (Some e, st1) \<Rightarrow> Some (Some e, st1)
      | Some (None, st1) \<Rightarrow> forEach f rest st1)"

text \<open>
  \<^verbatim>\<open>getVehiclesData3D()\<close> (lines 191-220) at the trips \<open>trips\<close> and the playback time
  \<open>now\<close>, started with the assignments and the number of random calls \<open>s\<close>. It gives the
  returned object or the error thrown, and the assignments and the number of random
  calls afterwards; \<open>None\<close> is a call that does not return.
\<close>

definition getVehiclesData3D ::
  "trip list \<Rightarrow> real \<Rightarrow> (nat \<Rightarrow> real) \<Rightarrow> (string \<rightharpoonup> int) \<times> nat
     \<Rightarrow> ((js_error + (int \<rightharpoonup> vehicle list)) \<times> (string \<rightharpoonup> int) \<times> nat) option" where
  "getVehiclesData3D trips now random s =
     (let st = \<lparr>vehiclesByCarModel =
                   [1 \<mapsto> [], 2 \<mapsto> [], 3 \<mapsto> [], 4 \<mapsto> [], 5 \<mapsto> [], 6 \<mapsto> [], 7 \<mapsto> []],
                 vehicleCarAssignments = fst s, randomCalls = snd s\<rparr>
      in case forEach (visit now random) trips st of
           None \<Rightarrow> None
         | Some (Some e, st1) \<Rightarrow> Some (Inl e, vehicleCarAssignments st1, randomCalls st1)
         | Some (None, st1) \<Rightarrow>
             Some (Inr (vehiclesByCarModel st1), vehicleCarAssignments st1, randomCalls st1))"

text \<open>Two trips that are both on the road at time 5, and two sources of random numbers.\<close>

definition two_trips :: "trip list" where
  "two_trips = [scenario_trip, three_trip]"

definition dice :: "nat \<Rightarrow> real" where
  "dice i = (if i = 0 then 1/10 else 9/10)"

definition other_dice :: "nat \<Rightarrow> real" where
  "other_dice i = 1/2"

section \<open>Junctions of the network\<close>

text \<open>
  The value of a \<^verbatim>\<open>coordinates\<close> property is JSON: a number, an array, or \<^verbatim>\<open>null\<close>.
  A feature of the collection may be \<^verbatim>\<open>null\<close>, and its \<^verbatim>\<open>properties\<close>, its
  \<^verbatim>\<open>geometry\<close> and the \<^verbatim>\<open>coordinates\<close> of the geometry may be missing; of the
  properties the code of the junctions reads \<^verbatim>\<open>element\<close> and copies the others.
\<close>

datatype coords = Null | Num real | Arr "coords list"

record geometry =
  gtype :: string
  coordinates :: "coords option"

record properties =
  element :: "string option"
  attributes :: "(string \<times> string) list"

record feature =
  properties :: "properties option"
  geometry :: "geometry option"

record featureCollection =
  ctype :: string
  features :: "feature option list option"

text \<open>The returned object; \<open>lanes_arrows\<close> is its \<^verbatim>\<open>lanes\<close> and \<^verbatim>\<open>arrows\<close>.\<close>

record 'l network =
  lanes_arrows :: 'l
  junctions :: "feature list"

text \<open>
  The predicate of the filter of line 12. \<^verbatim>\<open>null\<close> and the number 0 are not truthy,
  and a number has no \<^verbatim>\<open>length\<close>, so that the comparison with 2 fails for it.
\<close>

definition isJunctionRecord :: "feature option \<Rightarrow> bool" where
  "isJunctionRecord fo =
     (case fo of
        None \<Rightarrow> False
      | Some f \<Rightarrow>
          (case properties f of
             None \<Rightarrow> False
           | Some p \<Rightarrow>
               element p = Some ''junction'' \<and>
               (case geometry f of
                  None \<Rightarrow> False
                | Some g \<Rightarrow>
                    (case coordinates g of
                       None \<Rightarrow> False
                     | Some Null \<Rightarrow> False
                     | Some (Num x) \<Rightarrow> False
                     | Some (Arr cs) \<Rightarrow> length cs > 2))))"

text \<open>
  The function of the map of line 13:
  \<^verbatim>\<open>f => ({ ...f, geometry: { type: 'Polygon', coordinates: [f.geometry.coordinates] } })\<close>.
  The read of \<^verbatim>\<open>f.geometry.coordinates\<close> throws when there is no feature or no
  geometry; missing coordinates become an array that holds \<^verbatim>\<open>undefined\<close>.
\<close>

definition toPolygon :: "feature option \<Rightarrow> js_error + feature" where
  "toPolygon fo =
     (case fo of
        None \<Rightarrow> Inl TypeError
      | Some f \<Rightarrow>
          (case geometry f of
             None \<Rightarrow> Inl TypeError
           | Some g \<Rightarrow>
               Inr (f\<lparr>geometry := Some \<lparr>gtype = ''Polygon'',
                    coordinates = Some (Arr [case coordinates g of None \<Rightarrow> Null
                                             | Some c \<Rightarrow> c])\<rparr>\<rparr>)))"

text \<open>\<^verbatim>\<open>Array.prototype.map\<close> with a function that may throw.\<close>

fun mapThrowing :: "('a \<Rightarrow> js_error + 'b) \<Rightarrow> 'a list \<Rightarrow> js_error + 'b list" where
  "mapThrowing f [] = Inr []"
| "mapThrowing f (x # xs) =
     (case f x of
        Inl e \<Rightarrow> Inl e
      | Inr y \<Rightarrow> (case mapThrowing f xs of Inl e \<Rightarrow> Inl e | Inr ys \<Rightarrow> Inr (y # ys)))"

definition junctionFeatures :: "feature option list \<Rightarrow> js_error + feature list" where
  "junctionFeatures fs = mapThrowing toPolygon (filter isJunctionRecord fs)"

text \<open>
  \<^verbatim>\<open>prepareSumoNetworkGeojson(gj)\<close> (lines 3-75 of the network helpers). The lanes and
  the arrows are computed with the geometry library turf, which is not part of the
  program; this computation is the parameter \<open>lanesPart\<close>, and it may throw. The body is
  inside \<^verbatim>\<open>try\<close>, and the \<^verbatim>\<open>catch\<close> returns \<^verbatim>\<open>null\<close>.
\<close>

definition prepareSumoNetworkGeojson ::
  "(feature option list \<Rightarrow> js_error + 'l) \<Rightarrow> featureCollection option \<Rightarrow> 'l network option" where
  "prepareSumoNetworkGeojson lanesPart gj =
     (case gj of
        None \<Rightarrow> None
      | Some c \<Rightarrow>
          if ctype c \<noteq> ''FeatureCollection'' then None
          else
            (case features c of
               None \<Rightarrow> None
             | Some fs \<Rightarrow>
                 (case (junctionFeatures fs, lanesPart fs) of
                    (Inr js, Inr l) \<Rightarrow> Some \<lparr>lanes_arrows = l, junctions = js\<rparr>
                  | _ \<Rightarrow> None)))"

text \<open>A computation of the lanes and arrows that yields nothing and does not throw.\<close>

definition no_lanes :: "feature option list \<Rightarrow> js_error + unit" where
  "no_lanes fs = Inr ()"

text \<open>
  A junction record with three coordinates of which the first two are the same point,
  and a collection that holds it together with a record of two coordinates.
\<close>

definition repeated_junction :: feature where
  "repeated_junction =
     \<lparr> properties = Some \<lparr>element = Some ''junction'', attributes = [(''id'', ''J1'')]\<rparr>,
       geometry = Some \<lparr>gtype = ''LineString'',
         coordinates = Some (Arr [Arr [Num 0, Num 0], Arr [Num 0, Num 0],
                                  Arr [Num 1, Num 1]])\<rparr> \<rparr>"

definition short_junction :: feature where
  "short_junction =
     \<lparr> properties = Some \<lparr>element = Some ''junction'', attributes = [(''id'', ''J2'')]\<rparr>,
       geometry = Some \<lparr>gtype = ''LineString'',
         coordinates = Some (Arr [Arr [Num 0, Num 0], Arr [Num 1, Num 1]])\<rparr> \<rparr>"

definition junction_collection :: "featureCollection option" where
  "junction_collection =
     Some \<lparr>ctype = ''FeatureCollection'',
           features = Some [Some repeated_junction, None, Some short_junction]\<rparr>"

section \<open>Properties of interpolateSample\<close>

subsection \<open>The binary search\<close>

lemma shr1_small: "0 \<le> x \<Longrightarrow> x < 2147483648 \<Longrightarrow> shr1 x = x div 2"
  by (simp add: shr1_def toInt32_def Let_def)

text \<open>
  Up to \<open>2^30 + 1\<close> entries the sum \<open>lo + hi\<close> stays below \<open>2^31\<close>, the shift is a plain
  halving, and the loop ends at two adjacent indices around the query time.
\<close>

lemma bsearch_brackets:
  assumes "0 \<le> lo" "lo < hi" "hi < int (length ps)" "length ps \<le> 1073741825"
    and "p_t (ps ! nat lo) \<le> t" "t < p_t (ps ! nat hi)"
  shows "\<exists>k. bsearch ps t lo hi = Some (Inr (k, k + 1)) \<and> lo \<le> k \<and> k + 1 \<le> hi
             \<and> p_t (ps ! nat k) \<le> t \<and> t < p_t (ps ! nat (k + 1))"
  using assms
proof (induction "nat (hi - lo)" arbitrary: lo hi rule: less_induct)
  case less
  show ?case
  proof (cases "lo + 1 < hi")
    case False
    with less.prems have "hi = lo + 1" by simp
    with less.prems show ?thesis
      by (subst bsearch.simps) auto
  next
    case True
    define mid where "mid = (lo + hi) div 2"
    have sm: "shr1 (lo + hi) = mid"
      unfolding mid_def using less.prems True by (intro shr1_small) auto
    have mid: "lo < mid" "mid < hi" using True by (auto simp: mid_def)
    have inr: "0 \<le> mid \<and> mid < int (length ps)" using mid less.prems by auto
    show ?thesis
    proof (cases "p_t (ps ! nat mid) \<le> t")
      case le: True
      have "\<exists>k. bsearch ps t mid hi = Some (Inr (k, k + 1)) \<and> mid \<le> k \<and> k + 1 \<le> hi
             \<and> p_t (ps ! nat k) \<le> t \<and> t < p_t (ps ! nat (k + 1))"
        using less.prems mid le by (intro less.hyps) auto
      moreover have "bsearch ps t lo hi = bsearch ps t mid hi"
        using True sm inr le by (subst bsearch.simps) (simp add: Let_def)
      ultimately show ?thesis using mid by fastforce
    next
      case gt: False
      have "\<exists>k. bsearch ps t lo mid = Some (Inr (k, k + 1)) \<and> lo \<le> k \<and> k + 1 \<le> mid
             \<and> p_t (ps ! nat k) \<le> t \<and> t < p_t (ps ! nat (k + 1))"
        using less.prems mid gt by (intro less.hyps) auto
      moreover have "bsearch ps t lo hi = bsearch ps t lo mid"
        using True sm inr gt by (subst bsearch.simps) (simp add: Let_def)
      ultimately show ?thesis using mid by fastforce
    qed
  qed
qed

text \<open>
  Whatever the length, the loop keeps the invariant: it assigns \<open>mid\<close> to \<open>lo\<close> only when
  the entry at \<open>mid\<close> is not after \<open>t\<close>, to \<open>hi\<close> only when it is after \<open>t\<close>, and it has
  read that entry, so \<open>mid\<close> is an index of the array.
\<close>

lemma bsearch_invariant_aux:
  assumes "bsearch ps t lo hi = Some y"
  shows "\<forall>lo' hi'. y = Inr (lo', hi') \<longrightarrow> bracket ps t lo hi \<longrightarrow> bracket ps t lo' hi'"
proof (rule bsearch.raw_induct [where P = "\<lambda>ps t lo hi y.
         \<forall>lo' hi'. y = Inr (lo', hi') \<longrightarrow> bracket ps t lo hi \<longrightarrow> bracket ps t lo' hi'",
       OF _ assms])
  fix bs ps t lo hi y
  assume IH: "\<And>ps t lo hi y. bs ps t lo hi = Some y \<Longrightarrow>
         \<forall>lo' hi'. y = Inr (lo', hi') \<longrightarrow> bracket ps t lo hi \<longrightarrow> bracket ps t lo' hi'"
    and body: "(if lo + 1 < hi
      then let mid = shr1 (lo + hi)
           in if 0 \<le> mid \<and> mid < int (length ps)
              then if p_t (ps ! nat mid) \<le> t then bs ps t mid hi
                   else bs ps t lo mid
              else Some (Inl TypeError)
      else Some (Inr (lo, hi))) = Some y"
  show "\<forall>lo' hi'. y = Inr (lo', hi') \<longrightarrow> bracket ps t lo hi \<longrightarrow> bracket ps t lo' hi'"
  proof (intro allI impI)
    fix lo' hi'
    assume y: "y = Inr (lo', hi')" and b: "bracket ps t lo hi"
    show "bracket ps t lo' hi'"
    proof (cases "lo + 1 < hi")
      case False
      with body y b show ?thesis by simp
    next
      case True
      let ?mid = "shr1 (lo + hi)"
      from body True y have inr: "0 \<le> ?mid \<and> ?mid < int (length ps)"
        by (auto simp: Let_def split: if_splits)
      show ?thesis
      proof (cases "p_t (ps ! nat ?mid) \<le> t")
        case le: True
        with body True inr have "bs ps t ?mid hi = Some y" by (simp add: Let_def)
        moreover have "bracket ps t ?mid hi" using b inr le by (simp add: bracket_def)
        ultimately show ?thesis using IH y by blast
      next
        case gt: False
        with body True inr have "bs ps t lo ?mid = Some y" by (simp add: Let_def)
        moreover have "bracket ps t lo ?mid" using b inr gt by (simp add: bracket_def)
        ultimately show ?thesis using IH y by blast
      qed
    qed
  qed
qed

lemma bsearch_invariant:
  "bsearch ps t lo hi = Some (Inr (lo', hi')) \<Longrightarrow> bracket ps t lo hi \<Longrightarrow> bracket ps t lo' hi'"
  using bsearch_invariant_aux by blast

lemma nth_first_last:
  "ps \<noteq> [] \<Longrightarrow> ps ! 0 = hd ps \<and> ps ! nat (int (length ps) - 1) = last ps"
  by (simp add: hd_conv_nth last_conv_nth nat_diff_distrib')

lemma bracket_initial:
  "ps \<noteq> [] \<Longrightarrow> p_t (hd ps) < t \<Longrightarrow> t < p_t (last ps) \<Longrightarrow>
     bracket ps t 0 (int (length ps) - 1)"
  using nth_first_last [of ps] by (simp add: bracket_def)

lemma interpolateSample_inside:
  assumes "path d \<noteq> []" "p_t (hd (path d)) < t" "t < p_t (last (path d))"
    and "bsearch (path d) t 0 (int (length (path d)) - 1) = Some (Inr (lo, hi))"
  shows "bracket (path d) t lo hi"
    and "interpolateSample d t
           = Some (Inr (Some (interpolate (path d ! nat lo) (path d ! nat hi) t)))"
proof -
  show b: "bracket (path d) t lo hi"
    using bsearch_invariant [OF assms(4)] bracket_initial [OF assms(1-3)] by simp
  then have "elemAt (path d) lo = Inr (path d ! nat lo)" "elemAt (path d) hi = Inr (path d ! nat hi)"
    by (simp_all add: elemAt_def bracket_def)
  then show "interpolateSample d t
           = Some (Inr (Some (interpolate (path d ! nat lo) (path d ! nat hi) t)))"
    using assms nth_first_last [OF assms(1)]
    by (simp add: interpolateSample_def Let_def)
qed






text \<open>
  The bound on the length in \<open>bsearch_brackets\<close> is the range in which
  \<^verbatim>\<open>(lo + hi) >> 1\<close> is the plain halving. On a path of \<open>2^31 + 1\<close> entries the first
  iteration computes \<^verbatim>\<open>(0 + 2147483648) >> 1\<close>, which is \<open>-1073741824\<close>, and the read at
  that index throws. Paths reach the component through \<^verbatim>\<open>JSON.parse\<close> of the text of
  one file, and no JavaScript engine holds a text long enough for that many entries.
\<close>

lemma bsearch_beyond_bound:
  "length overflow_path = 2147483649"
  "bsearch overflow_path 1 0 (int (length overflow_path) - 1) = Some (Inl TypeError)"
proof -
  show len: "length overflow_path = 2147483649" by (simp add: overflow_path_def)
  have sh: "shr1 2147483648 = - 1073741824" by (simp add: shr1_def toInt32_def)
  have "bsearch overflow_path 1 0 2147483648 = Some (Inl TypeError)"
    by (subst bsearch.simps) (simp add: sh len)
  then show "bsearch overflow_path 1 0 (int (length overflow_path) - 1) = Some (Inl TypeError)"
    by (simp add: len)
qed

subsection \<open>Claims about interpolateSample\<close>

text \<open>
  Claim C2. \<^verbatim>\<open>interpolateSample(trajectory, t)\<close> returns \<^verbatim>\<open>null\<close> exactly when the
  trajectory has no sample, or \<open>t\<close> is strictly before the first sample's timestamp, or
  \<open>t\<close> is strictly after the last sample's timestamp. In these cases the call returns
  (it is \<open>Some (Inr None)\<close>): it neither throws nor runs forever.
\<close>

theorem interpolateSample_null_iff:
  "interpolateSample d t = Some (Inr None) \<longleftrightarrow>
     (path d = [] \<or> t < p_t (hd (path d)) \<or> t > p_t (last (path d)))"
proof (cases "path d = []")
  case True
  then show ?thesis by (simp add: interpolateSample_def)
next
  case False
  show ?thesis
    using False nth_first_last [OF False]
    by (auto simp: interpolateSample_def Let_def split: option.splits sum.splits prod.splits)
qed

text \<open>Claim C2 at concrete inputs: no sample, after the last, before the first, at the last.\<close>

theorem interpolateSample_null_iff_witness:
  "interpolateSample \<lparr>trip_id = ''none'', path = []\<rparr> 3 = Some (Inr None)
   \<and> interpolateSample scenario_trip 11 = Some (Inr None)
   \<and> interpolateSample scenario_trip (- 1) = Some (Inr None)
   \<and> interpolateSample scenario_trip 10 \<noteq> Some (Inr None)"
  using interpolateSample_null_iff [of "\<lparr>trip_id = ''none'', path = []\<rparr>" 3]
    interpolateSample_null_iff [of scenario_trip 11]
    interpolateSample_null_iff [of scenario_trip "- 1"]
    interpolateSample_null_iff [of scenario_trip 10]
  by (simp add: scenario_trip_def)

text \<open>
  Claim C10. For a trajectory with exactly one sample \<^verbatim>\<open>[lon, lat, t, speed?, ratio?,
  angle?]\<close>, \<^verbatim>\<open>interpolateSample\<close> returns \<^verbatim>\<open>null\<close> for every query time other than
  \<open>t\<close>, and at \<open>t\<close> the sample itself: the position \<open>[lon, lat]\<close>, and the speed, the ratio
  and the angle of the sample, each of them 0 when the entry is missing.
\<close>

theorem single_sample:
  "path d = [p] \<Longrightarrow>
     interpolateSample d t =
       Some (Inr (if t = p_t p
                  then Some \<lparr> pos = (p_lon p, p_lat p),
                              spd_mps = (case p_spd p of None \<Rightarrow> 0 | Some v \<Rightarrow> v),
                              ratio = (case p_ratio p of None \<Rightarrow> 0 | Some r \<Rightarrow> r),
                              angle = (case p_angle p of None \<Rightarrow> 0 | Some a \<Rightarrow> a) \<rparr>
                  else None))"
  by (auto simp: interpolateSample_def getPoint_def or0_def split: option.splits)

text \<open>
  Claim C10 at the single sample of time 7 with all entries, queried at the times 7, 6
  and 8, and at the single sample without speed and ratio.
\<close>

theorem single_sample_witness:
  "interpolateSample measured_trip 7
     = Some (Inr (Some \<lparr>pos = (3, 5), spd_mps = 12, ratio = 2/5, angle = 30\<rparr>))
   \<and> interpolateSample measured_trip 6 = Some (Inr None)
   \<and> interpolateSample measured_trip 8 = Some (Inr None)
   \<and> interpolateSample single_trip 7
     = Some (Inr (Some \<lparr>pos = (3, 5), spd_mps = 0, ratio = 0, angle = 30\<rparr>))"
  using single_sample [of measured_trip _ 7] single_sample [of measured_trip _ 6]
    single_sample [of measured_trip _ 8] single_sample [of single_trip _ 7]
  by (simp add: single_trip_def measured_trip_def)

text \<open>
  Claim C3. For every path of length \<open>n \<ge> 2\<close> that the component can hold (\<open>n \<le> 2^30 + 1\<close>:
  a path is parsed from the text of one file, see \<open>bsearch_beyond_bound\<close>) and every \<open>t\<close>
  strictly between the first and the last timestamp, the loop terminates and exits with
  adjacent indices \<open>lo\<close> and \<open>hi = lo + 1\<close> inside the path such that
  \<open>path[lo].t \<le> t < path[hi].t\<close>, hence \<open>path[lo].t \<le> t \<le> path[hi].t\<close>; so it never
  selects the same entry twice. The loop compares timestamps and computes with indices
  only, so no rounding is involved. (The path need not even be sorted for this.)
\<close>

theorem bsearch_adjacent:
  assumes "2 \<le> length ps" "length ps \<le> 1073741825"
    and "p_t (hd ps) < t" "t < p_t (last ps)"
  shows "\<exists>lo hi. bsearch ps t 0 (int (length ps) - 1) = Some (Inr (lo, hi))
           \<and> hi = lo + 1 \<and> 0 \<le> lo \<and> hi < int (length ps)
           \<and> p_t (ps ! nat lo) \<le> t \<and> t < p_t (ps ! nat hi)"
proof -
  from assms have ne: "ps \<noteq> []" by auto
  have "\<exists>k. bsearch ps t 0 (int (length ps) - 1) = Some (Inr (k, k + 1)) \<and> 0 \<le> k
          \<and> k + 1 \<le> int (length ps) - 1
          \<and> p_t (ps ! nat k) \<le> t \<and> t < p_t (ps ! nat (k + 1))"
    using assms nth_first_last [OF ne] by (intro bsearch_brackets) auto
  then show ?thesis by fastforce
qed

text \<open>Claim C3 at the three-sample path and query time 5.\<close>

theorem bsearch_adjacent_witness:
  "\<exists>lo hi. bsearch (path three_trip) 5 0 2 = Some (Inr (lo, hi))
           \<and> hi = lo + 1 \<and> 0 \<le> lo \<and> hi < 3
           \<and> p_t (path three_trip ! nat lo) \<le> 5 \<and> 5 < p_t (path three_trip ! nat hi)"
  using bsearch_adjacent [of "path three_trip" 5]
  by (simp add: three_trip_def)

text \<open>
  Claim C4. For an interpolated query, that is, \<open>t\<close> strictly inside the sample range
  and the search ending at the entries \<open>p0 = path[lo]\<close> and \<open>p1 = path[hi]\<close>, the call
  returns a point, \<open>p0.t \<le> t < p1.t\<close>, and with \<open>f = (t - p0.t) / (p1.t - p0.t)\<close> the
  returned ratio is \<open>r0 + (r1 - r0) * f\<close> when both entries have a ratio, the one that is
  present when exactly one has, and 0 when none has. At an exact match of the first or
  the last timestamp the ratio of that sample is returned, an absent one as 0. Every
  query strictly inside the range of a path of at most \<open>2^30 + 1\<close> samples is such an
  interpolated query.
\<close>

theorem ratio_rule:
  assumes "path d \<noteq> []"
  shows "(p_t (hd (path d)) < t \<and> t < p_t (last (path d))
          \<and> bsearch (path d) t 0 (int (length (path d)) - 1) = Some (Inr (lo, hi))
          \<longrightarrow> (\<exists>s. interpolateSample d t = Some (Inr (Some s))
                \<and> p_t (path d ! nat lo) \<le> t \<and> t < p_t (path d ! nat hi)
                \<and> ratio s =
                    (case (p_ratio (path d ! nat lo), p_ratio (path d ! nat hi)) of
                       (Some r0, Some r1) \<Rightarrow>
                          r0 + (r1 - r0) * ((t - p_t (path d ! nat lo))
                                             / (p_t (path d ! nat hi) - p_t (path d ! nat lo)))
                     | (Some r0, None) \<Rightarrow> r0
                     | (None, Some r1) \<Rightarrow> r1
                     | (None, None) \<Rightarrow> 0)))
       \<and> (t = p_t (hd (path d)) \<and> t \<le> p_t (last (path d))
          \<longrightarrow> (\<exists>s. interpolateSample d t = Some (Inr (Some s))
                \<and> ratio s = (case p_ratio (hd (path d)) of Some r \<Rightarrow> r | None \<Rightarrow> 0)))
       \<and> (p_t (hd (path d)) < t \<and> t = p_t (last (path d))
          \<longrightarrow> (\<exists>s. interpolateSample d t = Some (Inr (Some s))
                \<and> ratio s = (case p_ratio (last (path d)) of Some r \<Rightarrow> r | None \<Rightarrow> 0)))
       \<and> (p_t (hd (path d)) < t \<and> t < p_t (last (path d))
          \<and> length (path d) \<le> 1073741825
          \<longrightarrow> (\<exists>k. bsearch (path d) t 0 (int (length (path d)) - 1) = Some (Inr (k, k + 1))))"
proof (intro conjI impI)
  assume h: "p_t (hd (path d)) < t \<and> t < p_t (last (path d))
          \<and> bsearch (path d) t 0 (int (length (path d)) - 1) = Some (Inr (lo, hi))"
  then have b: "bracket (path d) t lo hi"
    and r: "interpolateSample d t
           = Some (Inr (Some (interpolate (path d ! nat lo) (path d ! nat hi) t)))"
    using interpolateSample_inside [OF assms, of t lo hi] by simp_all
  from b have dt: "p_t (path d ! nat lo) \<le> t" "t < p_t (path d ! nat hi)"
    by (simp_all add: bracket_def)
  then have "p_t (path d ! nat hi) - p_t (path d ! nat lo) > 0" by simp
  then have "ratio (interpolate (path d ! nat lo) (path d ! nat hi) t) =
                    (case (p_ratio (path d ! nat lo), p_ratio (path d ! nat hi)) of
                       (Some r0, Some r1) \<Rightarrow>
                          r0 + (r1 - r0) * ((t - p_t (path d ! nat lo))
                                             / (p_t (path d ! nat hi) - p_t (path d ! nat lo)))
                     | (Some r0, None) \<Rightarrow> r0
                     | (None, Some r1) \<Rightarrow> r1
                     | (None, None) \<Rightarrow> 0)"
    by (simp add: interpolate_def Let_def)
  with r dt show "\<exists>s. interpolateSample d t = Some (Inr (Some s))
                \<and> p_t (path d ! nat lo) \<le> t \<and> t < p_t (path d ! nat hi)
                \<and> ratio s =
                    (case (p_ratio (path d ! nat lo), p_ratio (path d ! nat hi)) of
                       (Some r0, Some r1) \<Rightarrow>
                          r0 + (r1 - r0) * ((t - p_t (path d ! nat lo))
                                             / (p_t (path d ! nat hi) - p_t (path d ! nat lo)))
                     | (Some r0, None) \<Rightarrow> r0
                     | (None, Some r1) \<Rightarrow> r1
                     | (None, None) \<Rightarrow> 0)"
    by simp
next
  assume "t = p_t (hd (path d)) \<and> t \<le> p_t (last (path d))"
  then have "interpolateSample d t = Some (Inr (Some (getPoint (hd (path d)))))"
    using assms nth_first_last [OF assms] by (simp add: interpolateSample_def Let_def)
  then show "\<exists>s. interpolateSample d t = Some (Inr (Some s))
                \<and> ratio s = (case p_ratio (hd (path d)) of Some r \<Rightarrow> r | None \<Rightarrow> 0)"
    by (simp add: getPoint_def)
next
  assume "p_t (hd (path d)) < t \<and> t = p_t (last (path d))"
  then have "interpolateSample d t = Some (Inr (Some (getPoint (last (path d)))))"
    using assms nth_first_last [OF assms] by (simp add: interpolateSample_def Let_def)
  then show "\<exists>s. interpolateSample d t = Some (Inr (Some s))
                \<and> ratio s = (case p_ratio (last (path d)) of Some r \<Rightarrow> r | None \<Rightarrow> 0)"
    by (simp add: getPoint_def)
next
  assume h: "p_t (hd (path d)) < t \<and> t < p_t (last (path d))
          \<and> length (path d) \<le> 1073741825"
  have len2: "2 \<le> length (path d)"
  proof (cases "path d")
    case Nil
    with assms show ?thesis by simp
  next
    case (Cons x xs)
    with h show ?thesis by (cases xs) auto
  qed
  have "\<exists>k. bsearch (path d) t 0 (int (length (path d)) - 1) = Some (Inr (k, k + 1))
          \<and> 0 \<le> k \<and> k + 1 \<le> int (length (path d)) - 1
          \<and> p_t (path d ! nat k) \<le> t \<and> t < p_t (path d ! nat (k + 1))"
    using h len2 nth_first_last [OF assms] by (intro bsearch_brackets) auto
  then show "\<exists>k. bsearch (path d) t 0 (int (length (path d)) - 1) = Some (Inr (k, k + 1))"
    by blast
qed

text \<open>
  Claim C4 at concrete queries: both ratios present (the scenario of the specification,
  ratio 0.5 at time 5), only the ratio of \<open>p0\<close>, only the ratio of \<open>p1\<close>, no ratio, and
  the exact matches of a first and of a last sample without ratio.
\<close>

theorem ratio_rule_witness:
  "(\<exists>s. interpolateSample scenario_trip 5 = Some (Inr (Some s)) \<and> ratio s = 1/2)
   \<and> (\<exists>s. interpolateSample three_trip 5 = Some (Inr (Some s)) \<and> ratio s = 1/2)
   \<and> (\<exists>s. interpolateSample three_trip 3 = Some (Inr (Some s)) \<and> ratio s = 1/2)
   \<and> (\<exists>s. interpolateSample bare_trip 1 = Some (Inr (Some s)) \<and> ratio s = 0)
   \<and> (\<exists>s. interpolateSample three_trip 0 = Some (Inr (Some s)) \<and> ratio s = 0)
   \<and> (\<exists>s. interpolateSample three_trip 8 = Some (Inr (Some s)) \<and> ratio s = 0)"
proof (intro conjI)
  have b: "bsearch (path scenario_trip) 5 0 (int (length (path scenario_trip)) - 1)
             = Some (Inr (0, 1))"
    by (simp add: bsearch.simps scenario_trip_def)
  show "\<exists>s. interpolateSample scenario_trip 5 = Some (Inr (Some s)) \<and> ratio s = 1/2"
    using ratio_rule [of scenario_trip 5 0 1] b by (simp add: scenario_trip_def)
next
  have b: "bsearch (path three_trip) 5 0 (int (length (path three_trip)) - 1)
             = Some (Inr (1, 2))"
    by (simp add: bsearch.simps three_trip_def shr1_def toInt32_def)
  show "\<exists>s. interpolateSample three_trip 5 = Some (Inr (Some s)) \<and> ratio s = 1/2"
    using ratio_rule [of three_trip 5 1 2] b by (simp add: three_trip_def)
next
  have b: "bsearch (path three_trip) 3 0 (int (length (path three_trip)) - 1)
             = Some (Inr (0, 1))"
    by (simp add: bsearch.simps three_trip_def shr1_def toInt32_def)
  show "\<exists>s. interpolateSample three_trip 3 = Some (Inr (Some s)) \<and> ratio s = 1/2"
    using ratio_rule [of three_trip 3 0 1] b by (simp add: three_trip_def)
next
  have b: "bsearch (path bare_trip) 1 0 (int (length (path bare_trip)) - 1)
             = Some (Inr (0, 1))"
    by (simp add: bsearch.simps bare_trip_def)
  show "\<exists>s. interpolateSample bare_trip 1 = Some (Inr (Some s)) \<and> ratio s = 0"
    using ratio_rule [of bare_trip 1 0 1] b by (simp add: bare_trip_def)
next
  show "\<exists>s. interpolateSample three_trip 0 = Some (Inr (Some s)) \<and> ratio s = 0"
    using ratio_rule [of three_trip 0] by (simp add: three_trip_def)
next
  show "\<exists>s. interpolateSample three_trip 8 = Some (Inr (Some s)) \<and> ratio s = 0"
    using ratio_rule [of three_trip 8] by (simp add: three_trip_def)
qed




section \<open>The playback clock\<close>

subsection \<open>Rounding to a double\<close>

text \<open>
  Rounding is monotonic, it is symmetric, it returns a double unchanged, and it can be
  computed: \<open>double_eval\<close> gives the double nearest to a number whose exponent is known.
\<close>

lemma halvings_log: "1 \<le> y \<Longrightarrow> int (halvings y) = \<lfloor>log 2 y\<rfloor>"
proof (induction y rule: halvings.induct)
  case (1 y)
  show ?case
  proof (cases "2 \<le> y")
    case True
    then have "1 \<le> y / 2" by simp
    with 1 True have "int (halvings (y / 2)) = \<lfloor>log 2 (y / 2)\<rfloor>" by simp
    moreover have "log 2 (y / 2) = log 2 y - 1" using True by (simp add: log_divide)
    moreover have "halvings y = Suc (halvings (y / 2))"
      using True by (subst halvings.simps) simp
    ultimately show ?thesis by simp
  next
    case False
    then have h: "halvings y = 0" by (subst halvings.simps) simp
    have "0 \<le> log 2 y" using "1.prems" by simp
    moreover have "log 2 y < 1" using False "1.prems" by (simp add: log_less_iff)
    ultimately have "\<lfloor>log 2 y\<rfloor> = 0" by (simp add: floor_eq_iff)
    with h show ?thesis by simp
  qed
qed

lemma halvings_small: "y < 2 \<Longrightarrow> halvings y = 0"
  by (subst halvings.simps) simp

lemma exponent_ge: "- 1022 \<le> exponent x"
  by (simp add: exponent_def)

lemma exponent_log:
  assumes "x \<noteq> 0"
  shows "exponent x = max \<lfloor>log 2 \<bar>x\<bar>\<rfloor> (- 1022)"
proof -
  define y where "y = \<bar>x\<bar> * 2 ^ 1022"
  have pos: "0 < \<bar>x\<bar>" using assms by simp
  have y: "0 < y" unfolding y_def using pos by (intro mult_pos_pos) simp_all
  have e: "exponent x = int (halvings y) - 1022" by (simp only: exponent_def y_def)
  have "log 2 y = log 2 \<bar>x\<bar> + log 2 (2 ^ 1022)"
    unfolding y_def using pos by (intro log_mult_pos) simp_all
  also have "log 2 ((2::real) ^ 1022) = real 1022 * log 2 2" by (rule log_nat_power) simp
  finally have l: "log 2 y = log 2 \<bar>x\<bar> + 1022" by simp
  show ?thesis
  proof (cases "1 \<le> y")
    case True
    then have "int (halvings y) = \<lfloor>log 2 y\<rfloor>" by (rule halvings_log)
    then have e': "exponent x = \<lfloor>log 2 \<bar>x\<bar>\<rfloor>" by (simp add: e l)
    have "0 \<le> log 2 y" using True y by simp
    then have "- 1022 \<le> log 2 \<bar>x\<bar>" using l by simp
    then have "- 1022 \<le> \<lfloor>log 2 \<bar>x\<bar>\<rfloor>" by (simp add: le_floor_iff)
    with e' show ?thesis by simp
  next
    case False
    then have "halvings y = 0" by (intro halvings_small) simp
    then have e': "exponent x = - 1022" by (simp add: e)
    have "log 2 y < 0" using False y by simp
    then have "log 2 \<bar>x\<bar> < - 1022" using l by simp
    then have "\<lfloor>log 2 \<bar>x\<bar>\<rfloor> < - 1022" by (simp add: floor_less_iff)
    with e' show ?thesis by simp
  qed
qed

lemma nearest_even_int [simp]: "nearest_even (real_of_int n) = n"
  by (simp add: nearest_even_def)

lemma nearest_even_mono: "x \<le> y \<Longrightarrow> nearest_even x \<le> nearest_even y"
proof -
  assume xy: "x \<le> y"
  have up: "nearest_even x \<le> \<lfloor>x\<rfloor> + 1" and lo: "\<lfloor>y\<rfloor> \<le> nearest_even y"
    by (simp_all add: nearest_even_def Let_def)
  have fm: "\<lfloor>x\<rfloor> \<le> \<lfloor>y\<rfloor>" using xy by (rule floor_mono)
  show ?thesis
  proof (cases "\<lfloor>x\<rfloor> = \<lfloor>y\<rfloor>")
    case True
    then show ?thesis using xy by (auto simp: nearest_even_def Let_def)
  next
    case False
    with fm have "\<lfloor>x\<rfloor> + 1 \<le> \<lfloor>y\<rfloor>" by simp
    with up lo show ?thesis by linarith
  qed
qed

lemma nearest_even_minus: "nearest_even (- x) = - nearest_even x"
proof (cases "x = real_of_int \<lfloor>x\<rfloor>")
  case True
  then obtain n where "x = real_of_int n" ..
  then have "- x = real_of_int (- n)" by simp
  then show ?thesis using \<open>x = real_of_int n\<close> by (simp only: nearest_even_int)
next
  case False
  then have f: "\<lfloor>- x\<rfloor> = - \<lfloor>x\<rfloor> - 1"
  proof -
    have "real_of_int \<lfloor>x\<rfloor> \<le> x" "x < real_of_int \<lfloor>x\<rfloor> + 1" by linarith+
    with False have "real_of_int \<lfloor>x\<rfloor> < x" by (metis order_le_less)
    moreover note \<open>x < real_of_int \<lfloor>x\<rfloor> + 1\<close>
    ultimately have "real_of_int (- \<lfloor>x\<rfloor> - 1) \<le> - x \<and> - x < real_of_int (- \<lfloor>x\<rfloor> - 1) + 1"
      by (simp, linarith)
    then show ?thesis by (simp only: floor_eq_iff)
  qed
  show ?thesis using False
    by (auto simp: nearest_even_def Let_def f)
qed

lemma nearest_even_zero [simp]: "nearest_even 0 = 0"
  using nearest_even_int [of 0] by simp

lemma ulp_pos: "0 < ulp x"
  by (simp add: ulp_def)

lemma ulp_minus: "ulp (- x) = ulp x"
  by (simp add: ulp_def exponent_def)

lemma double_zero [simp]: "double 0 = 0"
  by (simp add: double_def)

lemma double_minus: "double (- x) = - double x"
  by (simp add: double_def ulp_minus nearest_even_minus)

lemma below_next_power:
  assumes "0 < x"
  shows "x < 2 powr (real_of_int (exponent x) + 1)"
proof -
  have "log 2 x < real_of_int \<lfloor>log 2 x\<rfloor> + 1" by linarith
  also have "\<dots> \<le> real_of_int (exponent x) + 1" using assms by (simp add: exponent_log)
  finally have "2 powr (log 2 x) < 2 powr (real_of_int (exponent x) + 1)"
    by (simp only: powr_less_cancel_iff)
  then show ?thesis using assms by simp
qed

lemma above_power:
  assumes "0 < x" "- 1022 < exponent x"
  shows "2 powr (real_of_int (exponent x)) \<le> x"
proof -
  from assms have "exponent x = \<lfloor>log 2 x\<rfloor>" by (simp add: exponent_log max_def split: if_splits)
  then have "real_of_int (exponent x) \<le> log 2 x" by simp
  then have "2 powr (real_of_int (exponent x)) \<le> 2 powr (log 2 x)"
    by (simp only: powr_le_cancel_iff)
  then show ?thesis using assms by simp
qed

lemma exponent_mono:
  assumes "0 < x" "x \<le> y"
  shows "exponent x \<le> exponent y"
proof -
  have "log 2 x \<le> log 2 y" using assms by simp
  then have "\<lfloor>log 2 x\<rfloor> \<le> \<lfloor>log 2 y\<rfloor>" by (rule floor_mono)
  then have "max \<lfloor>log 2 x\<rfloor> (- 1022) \<le> max \<lfloor>log 2 y\<rfloor> (- 1022)"
    by (intro max.mono) simp_all
  moreover have "exponent x = max \<lfloor>log 2 x\<rfloor> (- 1022)"
    using exponent_log [of x] assms by simp
  moreover have "exponent y = max \<lfloor>log 2 y\<rfloor> (- 1022)"
    using exponent_log [of y] assms by simp
  ultimately show ?thesis by simp
qed

lemma power_53_ulp: "2 ^ 53 * ulp x = 2 powr (real_of_int (exponent x) + 1)"
proof -
  have "(2::real) ^ 53 = 2 powr 53" by simp
  then have "2 ^ 53 * ulp x = 2 powr (53 + (real_of_int (exponent x) - 52))"
    unfolding ulp_def by (simp only: powr_add)
  also have "53 + (real_of_int (exponent x) - 52) = real_of_int (exponent x) + 1" by simp
  finally show ?thesis .
qed

lemma power_52_ulp: "2 ^ 52 * ulp x = 2 powr (real_of_int (exponent x))"
proof -
  have "(2::real) ^ 52 = 2 powr 52" by simp
  then have "2 ^ 52 * ulp x = 2 powr (52 + (real_of_int (exponent x) - 52))"
    unfolding ulp_def by (simp only: powr_add)
  also have "52 + (real_of_int (exponent x) - 52) = real_of_int (exponent x)" by simp
  finally show ?thesis .
qed

lemma double_nonneg:
  assumes "0 \<le> x"
  shows "0 \<le> double x"
proof -
  have "0 \<le> x / ulp x" using assms ulp_pos [of x] by simp
  then have "nearest_even 0 \<le> nearest_even (x / ulp x)" by (rule nearest_even_mono)
  then show ?thesis using ulp_pos [of x] by (simp add: double_def)
qed

lemma double_le_next_power:
  assumes "0 < x"
  shows "double x \<le> 2 powr (real_of_int (exponent x) + 1)"
proof -
  have "x / ulp x \<le> 2 ^ 53"
    using below_next_power [OF assms] ulp_pos [of x] power_53_ulp [of x]
    by (simp add: pos_divide_le_eq)
  then have "nearest_even (x / ulp x) \<le> nearest_even (real_of_int (2 ^ 53))"
    by (intro nearest_even_mono) simp
  then have "real_of_int (nearest_even (x / ulp x)) \<le> 2 ^ 53"
    by (simp only: nearest_even_int) simp
  then have "real_of_int (nearest_even (x / ulp x)) * ulp x \<le> 2 ^ 53 * ulp x"
    using ulp_pos [of x] by (simp only: mult_le_cancel_right_pos)
  then show ?thesis using assms power_53_ulp [of x] by (simp add: double_def)
qed

lemma double_ge_power:
  assumes "0 < x" "- 1022 < exponent x"
  shows "2 powr (real_of_int (exponent x)) \<le> double x"
proof -
  have "2 ^ 52 \<le> x / ulp x"
    using above_power [OF assms] ulp_pos [of x] power_52_ulp [of x]
    by (simp add: pos_le_divide_eq)
  then have "nearest_even (real_of_int (2 ^ 52)) \<le> nearest_even (x / ulp x)"
    by (intro nearest_even_mono) simp
  then have "2 ^ 52 \<le> real_of_int (nearest_even (x / ulp x))"
    by (simp only: nearest_even_int) simp
  then have "2 ^ 52 * ulp x \<le> real_of_int (nearest_even (x / ulp x)) * ulp x"
    using ulp_pos [of x] by (simp only: mult_le_cancel_right_pos)
  then show ?thesis using assms power_52_ulp [of x] by (simp add: double_def)
qed

lemma double_mono_pos:
  assumes "0 < x" "x \<le> y"
  shows "double x \<le> double y"
proof (cases "exponent x = exponent y")
  case True
  then have u: "ulp x = ulp y" by (simp add: ulp_def)
  have "x / ulp y \<le> y / ulp y" using assms ulp_pos [of y] by (simp add: divide_right_mono)
  then have "nearest_even (x / ulp y) \<le> nearest_even (y / ulp y)" by (rule nearest_even_mono)
  then have "real_of_int (nearest_even (x / ulp y)) * ulp y
               \<le> real_of_int (nearest_even (y / ulp y)) * ulp y"
    using ulp_pos [of y] by (simp only: mult_le_cancel_right_pos of_int_le_iff)
  then show ?thesis using assms u by (simp add: double_def)
next
  case False
  with exponent_mono [OF assms] have lt: "exponent x + 1 \<le> exponent y" by simp
  have y: "0 < y" using assms by simp
  have m: "- 1022 < exponent y" using lt exponent_ge [of x] by simp
  have "double x \<le> 2 powr (real_of_int (exponent x) + 1)"
    by (rule double_le_next_power [OF assms(1)])
  also have "\<dots> \<le> 2 powr (real_of_int (exponent y))"
    using lt by (simp only: powr_le_cancel_iff)
  also have "\<dots> \<le> double y" by (rule double_ge_power [OF y m])
  finally show ?thesis .
qed

lemma double_mono:
  assumes "x \<le> y"
  shows "double x \<le> double y"
proof -
  consider "0 < x" | "x \<le> 0" "0 \<le> y" | "y < 0" by linarith
  then show ?thesis
  proof cases
    case 1
    then show ?thesis using assms by (rule double_mono_pos)
  next
    case 2
    then have "0 \<le> double (- x)" "0 \<le> double y" by (simp_all add: double_nonneg)
    then show ?thesis by (simp add: double_minus)
  next
    case 3
    then have "double (- y) \<le> double (- x)" using assms by (intro double_mono_pos) simp_all
    then show ?thesis by (simp add: double_minus)
  qed
qed

lemma log_2_power: "log 2 ((2::real) ^ k) = real k"
proof -
  have "log 2 ((2::real) ^ k) = real k * log 2 2" by (rule log_nat_power) simp
  then show ?thesis by simp
qed

lemma double_eval:
  assumes "2 ^ 52 \<le> x * 2 ^ n" "x * 2 ^ n < 2 ^ 53" "n \<le> 1074"
  shows "double x = real_of_int (nearest_even (x * 2 ^ n)) / 2 ^ n"
proof -
  have "(0::real) < 2 ^ 52" by simp
  with assms(1) have "0 < x * 2 ^ n" by linarith
  then have x: "0 < x" by (simp add: zero_less_mult_iff)
  have "log 2 (x * 2 ^ n) = log 2 x + log 2 (2 ^ n)"
    using x by (intro log_mult_pos) simp_all
  then have l: "log 2 (x * 2 ^ n) = log 2 x + real n" by (simp only: log_2_power)
  have "log 2 (2 ^ 52) \<le> log 2 (x * 2 ^ n)"
    using assms(1) x by (subst log_le_cancel_iff) simp_all
  then have a: "52 - real n \<le> log 2 x" unfolding l log_2_power by simp
  have "log 2 (x * 2 ^ n) < log 2 (2 ^ 53)"
    using assms(2) x by (subst log_less_cancel_iff) simp_all
  then have b: "log 2 x < 53 - real n" unfolding l log_2_power by simp
  have "\<lfloor>log 2 x\<rfloor> = 52 - int n" using a b by (simp add: floor_eq_iff)
  then have e: "exponent x = 52 - int n" using x assms(3) by (simp add: exponent_log)
  have u: "ulp x = 1 / 2 ^ n" by (simp add: ulp_def e powr_minus powr_realpow divide_simps)
  show ?thesis using x by (simp add: double_def u)
qed

lemma exponent_powr: "- 1022 \<le> k \<Longrightarrow> exponent (2 powr (real_of_int k)) = k"
  by (simp add: exponent_log)

lemma double_idem_pos:
  assumes "0 < x"
  shows "double (double x) = double x"
proof -
  define m where "m = nearest_even (x / ulp x)"
  define e where "e = exponent x"
  define u where "u = ulp x"
  have u: "0 < u" by (simp add: u_def ulp_pos)
  have dx: "double x = real_of_int m * u" using assms by (simp add: double_def m_def u_def)
  have "0 \<le> x / u" using assms u by simp
  then have "nearest_even 0 \<le> nearest_even (x / u)" by (rule nearest_even_mono)
  then have m0: "0 \<le> m" by (simp add: m_def u_def)
  have "x / u \<le> 2 ^ 53"
    using below_next_power [OF assms] u power_53_ulp [of x]
    by (simp add: pos_divide_le_eq u_def)
  then have "nearest_even (x / u) \<le> nearest_even (real_of_int (2 ^ 53))"
    by (intro nearest_even_mono) simp
  then have m53: "m \<le> 2 ^ 53" by (simp only: nearest_even_int m_def u_def)
  have p53: "2 ^ 53 * u = 2 powr (real_of_int (e + 1))"
    using power_53_ulp [of x] by (simp add: u_def e_def)
  have p52: "2 ^ 52 * u = 2 powr (real_of_int e)"
    using power_52_ulp [of x] by (simp add: u_def e_def)
  have ege: "- 1022 \<le> e" by (simp add: e_def exponent_ge)
  consider "m = 0" | "m = 2 ^ 53" | "0 < m" "m < 2 ^ 53" using m0 m53 by linarith
  then show ?thesis
  proof cases
    case 1
    then show ?thesis by (simp add: dx)
  next
    case 2
    then have y: "double x = 2 powr (real_of_int (e + 1))" using p53 by (simp add: dx)
    have ey: "exponent (double x) = e + 1"
      unfolding y using ege by (intro exponent_powr) simp
    have "ulp (double x) = 2 powr (real_of_int (e + 1) - 52)" by (simp add: ulp_def ey)
    also have "\<dots> = 2 powr (1 + (real_of_int e - 52))" by (simp add: algebra_simps)
    also have "\<dots> = 2 * u" unfolding powr_add by (simp add: u_def ulp_def e_def)
    finally have uy: "ulp (double x) = 2 * u" .
    have "double x / (2 * u) = real_of_int (2 ^ 52)" using 2 u by (simp add: dx)
    then have "nearest_even (double x / (2 * u)) = 2 ^ 52" by (simp only: nearest_even_int)
    moreover have "double x \<noteq> 0" unfolding y by simp
    ultimately have "double (double x) = real_of_int (2 ^ 52) * (2 * u)"
      by (simp add: double_def [of "double x"] uy)
    also have "\<dots> = double x" using 2 by (simp add: dx)
    finally show ?thesis .
  next
    case 3
    have ypos: "0 < double x" using 3 u by (simp add: dx)
    have "real_of_int m < 2 ^ 53" using 3(2) by (metis of_int_less_iff of_int_numeral of_int_power)
    then have "double x < 2 ^ 53 * u" using u by (simp add: dx)
    then have "double x < 2 powr (real_of_int (e + 1))" by (simp only: p53)
    then have "log 2 (double x) < real_of_int (e + 1)"
      using ypos by (simp add: log_less_iff)
    then have "\<lfloor>log 2 (double x)\<rfloor> < e + 1" by (simp only: floor_less_iff)
    then have up: "\<lfloor>log 2 (double x)\<rfloor> \<le> e" by simp
    have ey: "exponent (double x) = e"
    proof (cases "- 1022 < e")
      case True
      then have "2 ^ 52 \<le> x / u"
        using above_power [OF assms] u power_52_ulp [of x]
        by (simp add: pos_le_divide_eq u_def e_def)
      then have "nearest_even (real_of_int (2 ^ 52)) \<le> nearest_even (x / u)"
        by (intro nearest_even_mono) simp
      then have "2 ^ 52 \<le> m" by (simp only: nearest_even_int m_def u_def)
      then have "(2::real) ^ 52 \<le> real_of_int m"
        by (metis of_int_le_iff of_int_numeral of_int_power)
      then have "2 ^ 52 * u \<le> double x" using u by (simp add: dx)
      then have "2 powr (real_of_int e) \<le> double x" by (simp only: p52)
      then have "real_of_int e \<le> log 2 (double x)" using ypos by (simp add: le_log_iff)
      then have "e \<le> \<lfloor>log 2 (double x)\<rfloor>" by (simp add: le_floor_iff)
      with up have "\<lfloor>log 2 (double x)\<rfloor> = e" by simp
      then show ?thesis using ypos ege by (simp add: exponent_log)
    next
      case False
      with ege have "e = - 1022" by simp
      with up show ?thesis using ypos by (simp add: exponent_log)
    qed
    have uy: "ulp (double x) = u" by (simp add: ulp_def ey u_def e_def)
    have "double x / u = real_of_int m" using u by (simp add: dx)
    then have ne: "nearest_even (double x / u) = m" by (simp only: nearest_even_int)
    have "double (double x)
            = real_of_int (nearest_even (double x / ulp (double x))) * ulp (double x)"
      using ypos by (simp add: double_def [of "double x"])
    also have "\<dots> = real_of_int m * u" by (simp only: uy ne)
    also have "\<dots> = double x" by (simp only: dx)
    finally show ?thesis .
  qed
qed

lemma double_idem: "double (double x) = double x"
proof -
  consider "0 < x" | "x = 0" | "x < 0" by linarith
  then show ?thesis
  proof cases
    case 1
    then show ?thesis by (rule double_idem_pos)
  next
    case 2
    then show ?thesis by simp
  next
    case 3
    then have "double (double (- x)) = double (- x)" by (intro double_idem_pos) simp
    then show ?thesis by (simp add: double_minus)
  qed
qed

subsection \<open>Frames\<close>

lemma animate_fixed:
  "playing (animate t st) = playing st" "speed (animate t st) = speed st"
  "minTime (animate t st) = minTime st" "maxTime (animate t st) = maxTime st"
  "lastTimestamp (animate t st) = Some t" "frames (animate t st) = frames st @ [fresh st]"
  by (simp_all add: animate_def requestAnimationFrame_def Let_def)

lemma animate_time:
  "playing st \<Longrightarrow> currentTime (animate t st) =
     (let last = (case lastTimestamp st of None \<Rightarrow> t | Some l \<Rightarrow> l);
          deltaTime = double (double (t - last) / 1000);
          advanced = double (currentTime st + double (deltaTime * speed st))
      in if maxTime st < advanced then minTime st else advanced)"
  by (simp add: animate_def requestAnimationFrame_def Let_def)

lemma frame_fixed:
  "playing (frame t st) = playing st" "speed (frame t st) = speed st"
  "minTime (frame t st) = minTime st" "maxTime (frame t st) = maxTime st"
  "frames st \<noteq> [] \<Longrightarrow> lastTimestamp (frame t st) = Some t"
  "frames st \<noteq> [] \<Longrightarrow> frames (frame t st) \<noteq> []"
  by (cases "frames st"; simp add: frame_def animate_fixed)+

lemma frame_time:
  "playing st \<Longrightarrow> frames st \<noteq> [] \<Longrightarrow> currentTime (frame t st) =
     (let last = (case lastTimestamp st of None \<Rightarrow> t | Some l \<Rightarrow> l);
          deltaTime = double (double (t - last) / 1000);
          advanced = double (currentTime st + double (deltaTime * speed st))
      in if maxTime st < advanced then minTime st else advanced)"
  by (cases "frames st") (simp_all add: frame_def animate_time Let_def)

lemma ticks_fixed:
  "playing (ticks ts st) = playing st" "speed (ticks ts st) = speed st"
  "minTime (ticks ts st) = minTime st" "maxTime (ticks ts st) = maxTime st"
  unfolding ticks_def by (induction ts arbitrary: st) (simp_all add: frame_fixed)

lemma ticks_pending: "frames st \<noteq> [] \<Longrightarrow> frames (ticks ts st) \<noteq> []"
  unfolding ticks_def by (induction ts arbitrary: st) (simp_all add: frame_fixed)

lemma ticks_snoc: "ticks (ts @ [t]) st = frame t (ticks ts st)"
  by (simp add: ticks_def)

lemma ticks_last:
  "frames st \<noteq> [] \<Longrightarrow> ts \<noteq> [] \<Longrightarrow> lastTimestamp (ticks ts st) = Some (last ts)"
  by (induction ts rule: rev_induct) (simp_all add: ticks_snoc frame_fixed ticks_pending)

lemma advance_nonneg:
  assumes "0 \<le> m" "l \<le> t"
  shows "0 \<le> double (double (double (t - l) / 1000) * m)"
proof -
  have "0 \<le> double (t - l)" using assms(2) by (simp add: double_nonneg)
  then have "0 \<le> double (double (t - l) / 1000)" by (simp add: double_nonneg)
  then show ?thesis using assms(1) by (simp add: double_nonneg)
qed

lemma frame_in_range:
  assumes "playing st" "0 \<le> speed st" "minTime st \<le> maxTime st"
    and "double (minTime st) = minTime st" "minTime st \<le> currentTime st"
    and "case lastTimestamp st of None \<Rightarrow> True | Some l \<Rightarrow> l \<le> t" "frames st \<noteq> []"
  shows "minTime st \<le> currentTime (frame t st) \<and> currentTime (frame t st) \<le> maxTime st"
proof -
  define l where "l = (case lastTimestamp st of None \<Rightarrow> t | Some l \<Rightarrow> l)"
  define a where "a = double (double (double (t - l) / 1000) * speed st)"
  have "l \<le> t" using assms(6) by (simp add: l_def split: option.splits)
  then have "0 \<le> a" unfolding a_def using assms(2) by (intro advance_nonneg)
  then have "double (minTime st) \<le> double (currentTime st + a)"
    using assms(5) by (intro double_mono) simp
  then have "minTime st \<le> double (currentTime st + a)" by (simp only: assms(4))
  then show ?thesis
    using assms(1,3,7) by (simp add: frame_time Let_def a_def l_def)
qed

lemma frame_is_double:
  assumes "playing st" "double (minTime st) = minTime st" "frames st \<noteq> []"
  shows "double (currentTime (frame t st)) = currentTime (frame t st)"
  using assms by (simp add: frame_time Let_def double_idem)

lemma frame_monotone:
  assumes "playing st" "0 \<le> speed st" "double (currentTime st) = currentTime st"
    and "case lastTimestamp st of None \<Rightarrow> True | Some l \<Rightarrow> l \<le> t" "frames st \<noteq> []"
  shows "currentTime st \<le> currentTime (frame t st)
         \<or> currentTime (frame t st) = minTime st"
proof -
  define l where "l = (case lastTimestamp st of None \<Rightarrow> t | Some l \<Rightarrow> l)"
  define a where "a = double (double (double (t - l) / 1000) * speed st)"
  have "l \<le> t" using assms(4) by (simp add: l_def split: option.splits)
  then have "0 \<le> a" unfolding a_def using assms(2) by (intro advance_nonneg)
  then have "double (currentTime st) \<le> double (currentTime st + a)"
    by (intro double_mono) simp
  then have "currentTime st \<le> double (currentTime st + a)" by (simp only: assms(3))
  then show ?thesis
    using assms(1,5) by (simp add: frame_time Let_def a_def l_def)
qed

lemma ticks_in_range:
  assumes "playing st" "0 \<le> speed st" "minTime st \<le> maxTime st"
    and "double (minTime st) = minTime st" "currentTime st = minTime st"
    and "sorted ts" "case lastTimestamp st of None \<Rightarrow> True | Some l \<Rightarrow> \<forall>t \<in> set ts. l \<le> t"
    and "frames st \<noteq> []"
  shows "minTime st \<le> currentTime (ticks ts st) \<and> currentTime (ticks ts st) \<le> maxTime st
         \<and> double (currentTime (ticks ts st)) = currentTime (ticks ts st)"
  using assms(6,7)
proof (induction ts rule: rev_induct)
  case Nil
  then show ?case using assms by (simp add: ticks_def)
next
  case (snoc t ts)
  have s: "sorted ts" using snoc.prems(1) by (simp add: sorted_append)
  have le: "\<forall>x \<in> set ts. x \<le> t" using snoc.prems(1) by (simp add: sorted_append)
  have l: "case lastTimestamp st of None \<Rightarrow> True | Some l \<Rightarrow> \<forall>t \<in> set ts. l \<le> t"
    using snoc.prems(2) by (simp split: option.splits)
  note ih = snoc.IH [OF s l]
  have "case lastTimestamp (ticks ts st) of None \<Rightarrow> True | Some l \<Rightarrow> l \<le> t"
  proof (cases "ts = []")
    case True
    then show ?thesis using snoc.prems(2) by (simp add: ticks_def split: option.splits)
  next
    case False
    then show ?thesis using le assms(8) by (simp add: ticks_last)
  qed
  then have "minTime (ticks ts st) \<le> currentTime (frame t (ticks ts st))
             \<and> currentTime (frame t (ticks ts st)) \<le> maxTime (ticks ts st)"
    using ih assms(1-4,8) by (intro frame_in_range) (simp_all add: ticks_fixed ticks_pending)
  moreover have "double (currentTime (frame t (ticks ts st))) = currentTime (frame t (ticks ts st))"
    using assms(1,4,8) by (intro frame_is_double) (simp_all add: ticks_fixed ticks_pending)
  ultimately show ?case by (simp add: ticks_snoc ticks_fixed)
qed

lemma ticks_step:
  assumes "playing st" "frames st \<noteq> []" "Suc k < length ts"
  shows "ticks (take (Suc (Suc k)) ts) st = frame (ts ! Suc k) (ticks (take (Suc k) ts) st)"
    and "lastTimestamp (ticks (take (Suc k) ts) st) = Some (ts ! k)"
proof -
  show "ticks (take (Suc (Suc k)) ts) st = frame (ts ! Suc k) (ticks (take (Suc k) ts) st)"
    using assms(3) by (simp only: take_Suc_conv_app_nth ticks_snoc)
  have k: "k < length ts" using assms(3) by simp
  have "take (Suc k) ts = take k ts @ [ts ! k]" using k by (rule take_Suc_conv_app_nth)
  then have "last (take (Suc k) ts) = ts ! k" and "take (Suc k) ts \<noteq> []" by simp_all
  then show "lastTimestamp (ticks (take (Suc k) ts) st) = Some (ts ! k)"
    using ticks_last [OF assms(2), of "take (Suc k) ts"] by simp
qed

subsection \<open>Rounding errors\<close>

lemma nearest_even_near: "\<bar>real_of_int (nearest_even y) - y\<bar> \<le> 1/2"
  unfolding nearest_even_def Let_def by (auto; linarith)

lemma double_error: "\<bar>double x - x\<bar> \<le> ulp x / 2"
proof (cases "x = 0")
  case True
  then show ?thesis using ulp_pos [of x] by simp
next
  case False
  have u: "0 < ulp x" by (rule ulp_pos)
  have "double x - x = (real_of_int (nearest_even (x / ulp x)) - x / ulp x) * ulp x"
    using False u by (simp add: double_def left_diff_distrib)
  then have "\<bar>double x - x\<bar> = \<bar>real_of_int (nearest_even (x / ulp x)) - x / ulp x\<bar> * ulp x"
    using u by (simp add: abs_mult)
  also have "\<dots> \<le> 1/2 * ulp x"
    using nearest_even_near [of "x / ulp x"] u by (intro mult_right_mono) simp_all
  finally show ?thesis by simp
qed

lemma half_ulp_subnormal: "exponent x = - 1022 \<Longrightarrow> ulp x / 2 = 2 powr (- 1075)"
proof -
  assume "exponent x = - 1022"
  then have "ulp x = 2 powr (- 1074)" by (simp add: ulp_def)
  moreover have "(2::real) powr (- 1074) = 2 powr (1 + (- 1075))" by simp
  ultimately have "ulp x = 2 * 2 powr (- 1075)" by (simp only: powr_add) simp
  then show ?thesis by simp
qed

lemma half_ulp_normal: "ulp x / 2 = 2 powr (real_of_int (exponent x)) / 2 ^ 53"
proof -
  have "2 ^ 53 * (ulp x / 2) = 2 ^ 52 * ulp x" by simp
  then have "2 ^ 53 * (ulp x / 2) = 2 powr (real_of_int (exponent x))"
    by (simp only: power_52_ulp)
  then show ?thesis by (simp add: field_simps)
qed

lemma double_error_of_value: "\<bar>double x - x\<bar> \<le> \<bar>x\<bar> / 2 ^ 53 + 2 powr (- 1075)"
proof (cases "x = 0 \<or> exponent x = - 1022")
  case True
  then show ?thesis using double_error [of x] half_ulp_subnormal [of x] by auto
next
  case False
  then have n: "- 1022 < exponent x" using exponent_ge [of x] by simp
  from False have "0 < \<bar>x\<bar>" by simp
  moreover have "exponent \<bar>x\<bar> = exponent x" by (simp add: exponent_def)
  ultimately have "2 powr (real_of_int (exponent x)) \<le> \<bar>x\<bar>"
    using above_power [of "\<bar>x\<bar>"] n by simp
  then have "ulp x / 2 \<le> \<bar>x\<bar> / 2 ^ 53"
    unfolding half_ulp_normal by (simp add: divide_right_mono)
  moreover have "0 \<le> (2::real) powr (- 1075)" by simp
  ultimately show ?thesis using double_error [of x] by linarith
qed

lemma double_abs: "\<bar>double x\<bar> = double \<bar>x\<bar>"
proof (cases "0 \<le> x")
  case True
  then have "0 \<le> double x" by (rule double_nonneg)
  with True show ?thesis by simp
next
  case False
  then have "0 \<le> double (- x)" by (intro double_nonneg) simp
  then have "\<bar>double x\<bar> = double (- x)" by (simp add: double_minus)
  with False show ?thesis by simp
qed

lemma double_error_of_result: "\<bar>double x - x\<bar> \<le> \<bar>double x\<bar> / 2 ^ 53 + 2 powr (- 1075)"
proof (cases "x = 0 \<or> exponent x = - 1022")
  case True
  then show ?thesis using double_error [of x] half_ulp_subnormal [of x] by auto
next
  case False
  then have n: "- 1022 < exponent x" using exponent_ge [of x] by simp
  from False have "0 < \<bar>x\<bar>" by simp
  moreover have e: "exponent \<bar>x\<bar> = exponent x" by (simp add: exponent_def)
  ultimately have "2 powr (real_of_int (exponent x)) \<le> double \<bar>x\<bar>"
    using double_ge_power [of "\<bar>x\<bar>"] n by simp
  then have "ulp x / 2 \<le> \<bar>double x\<bar> / 2 ^ 53"
    unfolding half_ulp_normal double_abs by (simp add: divide_right_mono)
  moreover have "0 \<le> (2::real) powr (- 1075)" by simp
  ultimately show ?thesis using double_error [of x] by linarith
qed

lemma scaled_error:
  fixes m x y b :: real
  assumes "0 \<le> m" "\<bar>x - y\<bar> \<le> b"
  shows "\<bar>m * x - m * y\<bar> \<le> m * b"
proof -
  have "\<bar>m * x - m * y\<bar> = m * \<bar>x - y\<bar>"
    using assms(1) by (simp add: abs_mult right_diff_distrib [symmetric])
  also have "\<dots> \<le> m * b" using assms by (intro mult_left_mono)
  finally show ?thesis .
qed

lemma advance_error:
  assumes "0 \<le> d" "0 \<le> m" "m \<le> 60"
  shows "\<bar>double (double (double d / 1000) * m) - m * (d / 1000)\<bar>
           \<le> 4 * (m * (d / 1000)) / 2 ^ 53 + 64 * 2 powr (- 1075)"
proof -
  define h :: real where "h = 2 powr (- 1075)"
  define x1 where "x1 = double d"
  define x2 where "x2 = double (x1 / 1000)"
  define a where "a = double (x2 * m)"
  define P where "P = m * d"
  define Q where "Q = m * x1"
  define R where "R = m * x2"
  have h: "0 \<le> h" by (simp add: h_def)
  have x1: "0 \<le> x1" unfolding x1_def using assms(1) by (rule double_nonneg)
  have x2: "0 \<le> x2" unfolding x2_def using x1 by (intro double_nonneg) simp
  have P: "0 \<le> P" and Q: "0 \<le> Q" and R: "0 \<le> R"
    using assms(1,2) x1 x2 by (simp_all add: P_def Q_def R_def)
  have mh: "m * h \<le> 60 * h" using assms(3) h by (rule mult_right_mono)
  have mh0: "0 \<le> m * h" using assms(2) h by simp
  have "\<bar>x1 - d\<bar> \<le> d / 2 ^ 53 + h"
    using double_error_of_value [of d] assms(1) by (simp add: x1_def h_def)
  then have "\<bar>m * x1 - m * d\<bar> \<le> m * (d / 2 ^ 53 + h)"
    using assms(2) by (intro scaled_error)
  then have e1: "\<bar>Q - P\<bar> \<le> P / 2 ^ 53 + m * h" by (simp add: P_def Q_def distrib_left)
  have "\<bar>x2 - x1 / 1000\<bar> \<le> (x1 / 1000) / 2 ^ 53 + h"
    using double_error_of_value [of "x1 / 1000"] x1 by (simp add: x2_def h_def)
  then have "\<bar>m * x2 - m * (x1 / 1000)\<bar> \<le> m * ((x1 / 1000) / 2 ^ 53 + h)"
    using assms(2) by (intro scaled_error)
  then have e2: "\<bar>R - Q / 1000\<bar> \<le> (Q / 1000) / 2 ^ 53 + m * h"
    by (simp add: Q_def R_def distrib_left)
  have "\<bar>a - x2 * m\<bar> \<le> (x2 * m) / 2 ^ 53 + h"
    using double_error_of_value [of "x2 * m"] x2 assms(2) by (simp add: a_def h_def)
  then have e3: "\<bar>a - R\<bar> \<le> R / 2 ^ 53 + h" by (simp add: R_def mult.commute)
  have "\<bar>a - P / 1000\<bar> \<le> 4 * (P / 1000) / 2 ^ 53 + 64 * h"
    using e1 e2 e3 P Q R h mh mh0 by simp
  then show ?thesis
    by (simp add: a_def x2_def x1_def P_def h_def)
qed

lemma frame_error:
  assumes "playing S" "frames S \<noteq> []" "lastTimestamp S = Some l" "l \<le> t"
    and "0 \<le> speed S" "speed S \<le> 60"
    and "double (minTime S) = minTime S" "double (maxTime S) = maxTime S"
    and "minTime S \<le> currentTime S"
    and "\<bar>minTime S\<bar> \<le> B" "\<bar>maxTime S\<bar> \<le> B"
    and "\<bar>currentTime S - E\<bar> \<le> tol"
    and "E + speed S * ((t - l) / 1000) + tol + 4 * (speed S * ((t - l) / 1000)) / 2 ^ 53
           + 64 * 2 powr (- 1075) \<le> maxTime S"
  shows "\<bar>currentTime (frame t S) - (E + speed S * ((t - l) / 1000))\<bar>
           \<le> tol + 4 * (speed S * ((t - l) / 1000)) / 2 ^ 53 + 65 * 2 powr (- 1075)
              + B / 2 ^ 53"
proof -
  define h :: real where "h = 2 powr (- 1075)"
  define A where "A = speed S * ((t - l) / 1000)"
  define a where "a = double (double (double (t - l) / 1000) * speed S)"
  define n where "n = double (currentTime S + a)"
  have d: "0 \<le> t - l" using assms(4) by simp
  have ae: "\<bar>a - A\<bar> \<le> 4 * A / 2 ^ 53 + 64 * h"
    using advance_error [OF d assms(5,6)] by (simp add: a_def A_def h_def)
  have a0: "0 \<le> a" unfolding a_def using assms(5,4) by (rule advance_nonneg)
  have "currentTime S + a \<le> maxTime S"
    using ae assms(12,13) unfolding A_def h_def by linarith
  then have "double (currentTime S + a) \<le> double (maxTime S)" by (rule double_mono)
  then have up: "n \<le> maxTime S" by (simp only: n_def assms(8))
  have "double (minTime S) \<le> double (currentTime S + a)"
    using assms(9) a0 by (intro double_mono) simp
  then have lo: "minTime S \<le> n" by (simp only: n_def assms(7))
  have v: "currentTime (frame t S) = n"
    using assms(1,2,3) up by (simp add: frame_time Let_def n_def a_def)
  have "\<bar>n\<bar> \<le> B" using lo up assms(10,11) by linarith
  then have "\<bar>n\<bar> / 2 ^ 53 \<le> B / 2 ^ 53" by (simp add: divide_right_mono)
  moreover have "\<bar>n - (currentTime S + a)\<bar> \<le> \<bar>n\<bar> / 2 ^ 53 + h"
    using double_error_of_result [of "currentTime S + a"] by (simp add: n_def h_def)
  ultimately have "\<bar>n - (E + A)\<bar> \<le> tol + 4 * A / 2 ^ 53 + 65 * h + B / 2 ^ 53"
    using ae assms(12) by linarith
  then show ?thesis by (simp add: v A_def h_def)
qed

lemma ticks_error:
  assumes "playing st" "0 \<le> speed st" "minTime st \<le> maxTime st"
    and "double (minTime st) = minTime st" "double (maxTime st) = maxTime st"
    and "currentTime st = minTime st" "lastTimestamp st = None" "frames st \<noteq> []"
    and "sorted (t0 # ts)" "speed st \<le> 60"
    and "\<bar>minTime st\<bar> \<le> B" "\<bar>maxTime st\<bar> \<le> B"
    and "k \<le> length ts"
    and "minTime st + speed st * (((t0 # ts) ! k - t0) / 1000)
           + (real k * (B / 2 ^ 53 + 65 * 2 powr (- 1075))
              + 4 * (speed st * (((t0 # ts) ! k - t0) / 1000)) / 2 ^ 53) \<le> maxTime st"
  shows "\<bar>currentTime (ticks (take (Suc k) (t0 # ts)) st)
            - (minTime st + speed st * (((t0 # ts) ! k - t0) / 1000))\<bar>
           \<le> real k * (B / 2 ^ 53 + 65 * 2 powr (- 1075))
              + 4 * (speed st * (((t0 # ts) ! k - t0) / 1000)) / 2 ^ 53"
  using assms(13,14)
proof (induction k)
  case 0
  have "currentTime (ticks [t0] st) = minTime st"
    using assms(1,3,4,6,7,8) by (simp add: ticks_def frame_time Let_def)
  then show ?case by simp
next
  case (Suc k)
  let ?xs = "t0 # ts"
  let ?S = "ticks (take (Suc k) ?xs) st"
  define h :: real where "h = 2 powr (- 1075)"
  define x where "x = ?xs ! k"
  define x' where "x' = ?xs ! Suc k"
  define Be where "Be = B / 2 ^ 53"
  define c0 where "c0 = Be + 65 * h"
  define K where "K = real k * c0"
  define Tx where "Tx = speed st * ((x - t0) / 1000)"
  define Tx' where "Tx' = speed st * ((x' - t0) / 1000)"
  define Ad where "Ad = speed st * ((x' - x) / 1000)"
  define U where "U = 4 * Tx / 2 ^ 53"
  define U' where "U' = 4 * Tx' / 2 ^ 53"
  define V where "V = 4 * Ad / 2 ^ 53"
  have k': "Suc k < length ?xs" using Suc.prems(1) by simp
  have le: "x \<le> x'" unfolding x_def x'_def using assms(9) k' by (intro sorted_nth_mono) simp_all
  have B: "0 \<le> B" using assms(11) by linarith
  have h: "0 \<le> h" by (simp add: h_def)
  have "(x - t0) / 1000 + (x' - x) / 1000 = (x' - t0) / 1000"
    by (simp add: add_divide_distrib [symmetric])
  then have split: "Tx' = Tx + Ad"
    by (simp only: Tx_def Tx'_def Ad_def distrib_left [symmetric])
  have usplit: "U' = U + V"
    by (simp only: U_def U'_def V_def split distrib_left add_divide_distrib)
  have Ad: "0 \<le> Ad" using assms(2) le by (simp add: Ad_def)
  then have V: "0 \<le> V" by (simp add: V_def)
  have Be: "0 \<le> Be" using B by (simp add: Be_def)
  have rk: "real (Suc k) * c0 = K + c0" by (simp add: K_def algebra_simps)
  have "minTime st + Tx' + (real (Suc k) * c0 + U') \<le> maxTime st"
    using Suc.prems(2) by (simp only: Tx'_def x'_def c0_def h_def Be_def U'_def)
  then have margin: "minTime st + Tx' + (K + c0 + U') \<le> maxTime st"
    by (simp only: rk)
  have "minTime st + Tx + (K + U) \<le> maxTime st"
    using margin split usplit Ad V Be h unfolding c0_def by linarith
  then have "minTime st + speed st * ((?xs ! k - t0) / 1000)
           + (real k * (B / 2 ^ 53 + 65 * 2 powr (- 1075))
              + 4 * (speed st * ((?xs ! k - t0) / 1000)) / 2 ^ 53) \<le> maxTime st"
    by (simp only: Tx_def x_def c0_def h_def K_def U_def Be_def)
  moreover have "k \<le> length ts" using Suc.prems(1) by simp
  ultimately have "\<bar>currentTime ?S - (minTime st + speed st * ((?xs ! k - t0) / 1000))\<bar>
           \<le> real k * (B / 2 ^ 53 + 65 * 2 powr (- 1075))
              + 4 * (speed st * ((?xs ! k - t0) / 1000)) / 2 ^ 53"
    using Suc.IH by blast
  then have ih: "\<bar>currentTime ?S - (minTime st + Tx)\<bar> \<le> K + U"
    by (simp only: Tx_def x_def c0_def h_def K_def U_def Be_def)
  note step = ticks_step [OF assms(1,8) k']
  have s: "sorted (take (Suc k) ?xs)" using assms(9) by (rule sorted_wrt_take)
  from ticks_in_range [OF assms(1,2,3,4,6) s _ assms(8)] assms(7)
  have r: "minTime st \<le> currentTime ?S" by simp
  have pend: "frames ?S \<noteq> []" using assms(8) by (rule ticks_pending)
  have l: "lastTimestamp ?S = Some x" using step(2) by (simp only: x_def)
  have pre: "minTime st + Tx + Ad + (K + U) + V + 64 * h \<le> maxTime st"
    using margin split usplit Be h unfolding c0_def by linarith
  note fe = frame_error [of ?S x x' B "minTime st + Tx" "K + U",
      unfolded ticks_fixed, folded Ad_def h_def, folded V_def Be_def]
  have "\<bar>currentTime (frame x' ?S) - (minTime st + Tx + Ad)\<bar>
          \<le> K + U + V + 65 * h + Be"
    by (rule fe [OF assms(1) pend l le assms(2,10,4,5) r assms(11,12) ih pre])
  then have "\<bar>currentTime (frame x' ?S) - (minTime st + Tx')\<bar> \<le> K + c0 + U'"
    unfolding split usplit c0_def by linarith
  then have "\<bar>currentTime (ticks (take (Suc (Suc k)) ?xs) st) - (minTime st + Tx')\<bar>
          \<le> real (Suc k) * c0 + U'"
    by (simp only: step(1) rk x'_def)
  then show ?case by (simp only: Tx'_def x'_def c0_def h_def U'_def Be_def)
qed

lemma tiny: "(2::real) powr (- 1075) = 1 / 2 ^ 1075"
proof -
  have "(2::real) powr (- 1075) = 1 / 2 powr 1075" by (rule powr_minus_divide)
  also have "(2::real) powr 1075 = 2 ^ 1075" by (rule powr_numeral) simp
  finally show ?thesis .
qed

subsection \<open>Doubles of the examples\<close>

lemma double_100: "double 100 = 100"
  by (subst double_eval [where n = 46]) (simp_all add: nearest_even_def)

lemma double_tenth: "double (1 / 10) = 3602879701896397 / 36028797018963968"
  by (subst double_eval [where n = 56]) (simp_all add: nearest_even_def)

lemma double_double_tenth: "double (3602879701896397 / 36028797018963968) = 3602879701896397 / 36028797018963968"
  using double_idem [of "1 / 10"] by (simp only: double_tenth)

lemma tick_100ms:
  assumes "playing st" "speed st = 1" "frames st \<noteq> []"
    and "currentTime (ticks (frames_100ms n) st) = c"
    and "double (c + 3602879701896397 / 36028797018963968) = c'"
    and "0 < n" "m = Suc n"
  shows "currentTime (ticks (frames_100ms m) st)
           = (if maxTime st < c' then minTime st else c')"
proof -
  let ?S = "ticks (frames_100ms n) st"
  have "frames_100ms n \<noteq> []" using assms(6) by (simp add: frames_100ms_def)
  moreover have "last (frames_100ms n) = 100 * real (n - 1)"
    using assms(6) by (simp add: frames_100ms_def last_map)
  ultimately have l: "lastTimestamp ?S = Some (100 * real (n - 1))"
    using ticks_last [OF assms(3), of "frames_100ms n"] by simp
  have delta: "100 * real n - 100 * real (n - 1) = 100"
    using assms(6) by (cases n) simp_all
  have d: "double (double (double (100 * real n - 100 * real (n - 1)) / 1000) * 1)
             = 3602879701896397 / 36028797018963968"
    unfolding delta by (simp add: double_100 double_tenth double_double_tenth)
  have e: "ticks (frames_100ms m) st = frame (100 * real n) ?S"
    by (simp add: assms(7) frames_100ms_def ticks_snoc)
  have p: "playing ?S" "frames ?S \<noteq> []"
    using assms(1,3) by (simp_all add: ticks_fixed ticks_pending)
  have sp: "speed ?S = 1" using assms(2) by (simp add: ticks_fixed)
  show ?thesis
    by (simp only: e frame_time [OF p] l option.case Let_def sp assms(2) d assms(4) assms(5)
        ticks_fixed)
qed

lemma tick_100ms_advances:
  assumes "playing st" "speed st = 1" "frames st \<noteq> []"
    and "currentTime (ticks (frames_100ms n) st) = c"
    and "double (c + 3602879701896397 / 36028797018963968) = c'"
    and "0 < n" "m = Suc n" "c' \<le> maxTime st"
  shows "currentTime (ticks (frames_100ms m) st) = c'"
  using tick_100ms [OF assms(1-7)] assms(8) by simp

lemma tick_100ms_wraps:
  assumes "playing st" "speed st = 1" "frames st \<noteq> []"
    and "currentTime (ticks (frames_100ms n) st) = c"
    and "double (c + 3602879701896397 / 36028797018963968) = c'"
    and "0 < n" "m = Suc n" "maxTime st < c'"
  shows "currentTime (ticks (frames_100ms m) st) = minTime st"
  using tick_100ms [OF assms(1-7)] assms(8) by simp

lemma first_tick:
  assumes "playing st" "frames st \<noteq> []" "lastTimestamp st = None"
    and "double (currentTime st) = currentTime st" "currentTime st \<le> maxTime st"
  shows "currentTime (ticks (frames_100ms 1) st) = currentTime st"
  using assms by (simp add: frames_100ms_def ticks_def frame_time Let_def)

lemma sorted_frames_100ms: "sorted (frames_100ms n)"
  by (simp add: frames_100ms_def sorted_iff_nth_mono)

lemma double_values:
  "double 1 = 1" "double 4 = 4" "double 7 = 7" "double 11 = 11"
  "double 4000 = 4000" "double 7000 = 7000"
  by (subst double_eval [where n = 52], simp_all add: nearest_even_def,
      subst double_eval [where n = 50], simp_all add: nearest_even_def,
      subst double_eval [where n = 50], simp_all add: nearest_even_def,
      subst double_eval [where n = 49], simp_all add: nearest_even_def,
      subst double_eval [where n = 41], simp_all add: nearest_even_def,
      subst double_eval [where n = 40], simp_all add: nearest_even_def)

lemma double_10: "double 10 = 10"
  by (subst double_eval [where n = 49]) (simp_all add: nearest_even_def)

lemma range_step_ordered:
  assumes "(fst acc = None \<and> snd acc = None) \<or> (\<exists>a b. acc = (Some a, Some b) \<and> a \<le> b)"
  shows "\<exists>a b. range_step acc p = (Some a, Some b) \<and> a \<le> b"
  using assms by (auto simp: range_step_def Let_def)

lemma range_fold_ordered:
  assumes "(fst acc = None \<and> snd acc = None) \<or> (\<exists>a b. acc = (Some a, Some b) \<and> a \<le> b)"
  shows "(fst (foldl range_step acc ps) = None \<and> snd (foldl range_step acc ps) = None)
         \<or> (\<exists>a b. foldl range_step acc ps = (Some a, Some b) \<and> a \<le> b)"
  using assms
proof (induction ps arbitrary: acc)
  case Nil
  then show ?case by simp
next
  case (Cons p ps)
  from range_step_ordered [OF Cons.prems, of p] show ?case
    by (simp only: foldl_Cons) (rule Cons.IH, blast)
qed

lemma trips_fold_ordered:
  assumes "(fst acc = None \<and> snd acc = None) \<or> (\<exists>a b. acc = (Some a, Some b) \<and> a \<le> b)"
  shows "(fst (foldl (\<lambda>a t. foldl range_step a (path t)) acc trips) = None
          \<and> snd (foldl (\<lambda>a t. foldl range_step a (path t)) acc trips) = None)
         \<or> (\<exists>a b. foldl (\<lambda>a t. foldl range_step a (path t)) acc trips = (Some a, Some b)
               \<and> a \<le> b)"
  using assms
proof (induction trips arbitrary: acc)
  case Nil
  then show ?case by simp
next
  case (Cons t trips)
  from range_fold_ordered [OF Cons.prems, of "path t"] show ?case
    by (simp only: foldl_Cons) (rule Cons.IH)
qed

lemma recomputeRanges_ordered:
  "minTime (recomputeRanges trips st) \<le> maxTime (recomputeRanges trips st)
   \<and> currentTime (recomputeRanges trips st) = minTime (recomputeRanges trips st)"
proof -
  have "(fst (foldl (\<lambda>a t. foldl range_step a (path t)) (None, None) trips) = None
          \<and> snd (foldl (\<lambda>a t. foldl range_step a (path t)) (None, None) trips) = None)
         \<or> (\<exists>a b. foldl (\<lambda>a t. foldl range_step a (path t)) (None, None) trips = (Some a, Some b)
               \<and> a \<le> b)"
    by (rule trips_fold_ordered) simp
  then show ?thesis
    by (cases "foldl (\<lambda>a t. foldl range_step a (path t)) (None, None) trips")
       (auto simp: recomputeRanges_def Let_def split: option.splits)
qed

text \<open>
  Claim C5, as stated, at the component mounted with a trajectory from time 0 to time
  \<open>3.000000000000001\<close>, playing at speed 1, and 31 frames 100 ms apart, from 0 ms to
  3000 ms. The elapsed time is \<open>T = 3\<close> s and \<open>m * T = 3\<close> is below \<open>maxTime - minTime\<close>.
  Every frame after the first adds \<^verbatim>\<open>(100 / 1000) * 1\<close>, the double next to 0.1; the
  sum of 29 of them is the double \<open>2.9000000000000012\<close>, and with the 30th it is
  \<open>3.0000000000000013\<close>, which exceeds \<open>maxTime\<close>. So the clock is set back: after the
  last frame \<open>currentTime\<close> is 0, not \<open>minTime + m * T = 3\<close>.
\<close>

theorem clock_wraps_before_bound:
  "playing (onMounted [three_second_trip] created)
   \<and> currentTime (onMounted [three_second_trip] created) = 0
   \<and> minTime (onMounted [three_second_trip] created) = 0
   \<and> maxTime (onMounted [three_second_trip] created) = 3377699720527873 / 1125899906842624
   \<and> speed (onMounted [three_second_trip] created) = 1
   \<and> sorted (frames_100ms 31)
   \<and> hd (frames_100ms 31) = 0 \<and> last (frames_100ms 31) = 3000
   \<and> 1 * ((3000 - 0) / 1000) < 3377699720527873 / 1125899906842624 - (0::real)
   \<and> currentTime (ticks (frames_100ms 30) (onMounted [three_second_trip] created))
        = 3265109729843611 / 1125899906842624
   \<and> currentTime (ticks (frames_100ms 31) (onMounted [three_second_trip] created)) = 0"
proof -
  define st where "st = onMounted [three_second_trip] created"
  have st: "playing st" "speed st = 1" "frames st \<noteq> []" "lastTimestamp st = None"
    and mm: "currentTime st = 0" "minTime st = 0" "maxTime st = 3377699720527873 / 1125899906842624"
    by (simp_all add: st_def onMounted_def recomputeRanges_def range_step_def init2D_def
        requestAnimationFrame_def created_def three_second_trip_def Let_def)
  note advances = tick_100ms_advances [OF st(1,2,3)]
  have "currentTime (ticks (frames_100ms 1) st) = currentTime st"
    using st(1,3,4) by (rule first_tick) (simp_all add: mm)
  then have c1: "currentTime (ticks (frames_100ms 1) st) = 0" by (simp only: mm)
  have a2: "double (0 + 3602879701896397 / 36028797018963968) = 3602879701896397 / 36028797018963968"
    by (subst double_eval [where n = 56]) (simp_all add: nearest_even_def)
  have c2: "currentTime (ticks (frames_100ms 2) st) = 3602879701896397 / 36028797018963968"
    by (rule advances [OF c1 a2]) (simp_all add: mm)
  have a3: "double (3602879701896397 / 36028797018963968 + 3602879701896397 / 36028797018963968) = 3602879701896397 / 18014398509481984"
    by (subst double_eval [where n = 55]) (simp_all add: nearest_even_def)
  have c3: "currentTime (ticks (frames_100ms 3) st) = 3602879701896397 / 18014398509481984"
    by (rule advances [OF c2 a3]) (simp_all add: mm)
  have a4: "double (3602879701896397 / 18014398509481984 + 3602879701896397 / 36028797018963968) = 1351079888211149 / 4503599627370496"
    by (subst double_eval [where n = 54]) (simp_all add: nearest_even_def)
  have c4: "currentTime (ticks (frames_100ms 4) st) = 1351079888211149 / 4503599627370496"
    by (rule advances [OF c3 a4]) (simp_all add: mm)
  have a5: "double (1351079888211149 / 4503599627370496 + 3602879701896397 / 36028797018963968) = 3602879701896397 / 9007199254740992"
    by (subst double_eval [where n = 54]) (simp_all add: nearest_even_def)
  have c5: "currentTime (ticks (frames_100ms 5) st) = 3602879701896397 / 9007199254740992"
    by (rule advances [OF c4 a5]) (simp_all add: mm)
  have a6: "double (3602879701896397 / 9007199254740992 + 3602879701896397 / 36028797018963968) = 1 / 2"
    by (subst double_eval [where n = 53]) (simp_all add: nearest_even_def)
  have c6: "currentTime (ticks (frames_100ms 6) st) = 1 / 2"
    by (rule advances [OF c5 a6]) (simp_all add: mm)
  have a7: "double (1 / 2 + 3602879701896397 / 36028797018963968) = 5404319552844595 / 9007199254740992"
    by (subst double_eval [where n = 53]) (simp_all add: nearest_even_def)
  have c7: "currentTime (ticks (frames_100ms 7) st) = 5404319552844595 / 9007199254740992"
    by (rule advances [OF c6 a7]) (simp_all add: mm)
  have a8: "double (5404319552844595 / 9007199254740992 + 3602879701896397 / 36028797018963968) = 3152519739159347 / 4503599627370496"
    by (subst double_eval [where n = 53]) (simp_all add: nearest_even_def)
  have c8: "currentTime (ticks (frames_100ms 8) st) = 3152519739159347 / 4503599627370496"
    by (rule advances [OF c7 a8]) (simp_all add: mm)
  have a9: "double (3152519739159347 / 4503599627370496 + 3602879701896397 / 36028797018963968) = 7205759403792793 / 9007199254740992"
    by (subst double_eval [where n = 53]) (simp_all add: nearest_even_def)
  have c9: "currentTime (ticks (frames_100ms 9) st) = 7205759403792793 / 9007199254740992"
    by (rule advances [OF c8 a9]) (simp_all add: mm)
  have a10: "double (7205759403792793 / 9007199254740992 + 3602879701896397 / 36028797018963968) = 2026619832316723 / 2251799813685248"
    by (subst double_eval [where n = 53]) (simp_all add: nearest_even_def)
  have c10: "currentTime (ticks (frames_100ms 10) st) = 2026619832316723 / 2251799813685248"
    by (rule advances [OF c9 a10]) (simp_all add: mm)
  have a11: "double (2026619832316723 / 2251799813685248 + 3602879701896397 / 36028797018963968) = 9007199254740991 / 9007199254740992"
    by (subst double_eval [where n = 53]) (simp_all add: nearest_even_def)
  have c11: "currentTime (ticks (frames_100ms 11) st) = 9007199254740991 / 9007199254740992"
    by (rule advances [OF c10 a11]) (simp_all add: mm)
  have a12: "double (9007199254740991 / 9007199254740992 + 3602879701896397 / 36028797018963968) = 4953959590107545 / 4503599627370496"
    by (subst double_eval [where n = 52]) (simp_all add: nearest_even_def)
  have c12: "currentTime (ticks (frames_100ms 12) st) = 4953959590107545 / 4503599627370496"
    by (rule advances [OF c11 a12]) (simp_all add: mm)
  have a13: "double (4953959590107545 / 4503599627370496 + 3602879701896397 / 36028797018963968) = 5404319552844595 / 4503599627370496"
    by (subst double_eval [where n = 52]) (simp_all add: nearest_even_def)
  have c13: "currentTime (ticks (frames_100ms 13) st) = 5404319552844595 / 4503599627370496"
    by (rule advances [OF c12 a13]) (simp_all add: mm)
  have a14: "double (5404319552844595 / 4503599627370496 + 3602879701896397 / 36028797018963968) = 5854679515581645 / 4503599627370496"
    by (subst double_eval [where n = 52]) (simp_all add: nearest_even_def)
  have c14: "currentTime (ticks (frames_100ms 14) st) = 5854679515581645 / 4503599627370496"
    by (rule advances [OF c13 a14]) (simp_all add: mm)
  have a15: "double (5854679515581645 / 4503599627370496 + 3602879701896397 / 36028797018963968) = 6305039478318695 / 4503599627370496"
    by (subst double_eval [where n = 52]) (simp_all add: nearest_even_def)
  have c15: "currentTime (ticks (frames_100ms 15) st) = 6305039478318695 / 4503599627370496"
    by (rule advances [OF c14 a15]) (simp_all add: mm)
  have a16: "double (6305039478318695 / 4503599627370496 + 3602879701896397 / 36028797018963968) = 6755399441055745 / 4503599627370496"
    by (subst double_eval [where n = 52]) (simp_all add: nearest_even_def)
  have c16: "currentTime (ticks (frames_100ms 16) st) = 6755399441055745 / 4503599627370496"
    by (rule advances [OF c15 a16]) (simp_all add: mm)
  have a17: "double (6755399441055745 / 4503599627370496 + 3602879701896397 / 36028797018963968) = 7205759403792795 / 4503599627370496"
    by (subst double_eval [where n = 52]) (simp_all add: nearest_even_def)
  have c17: "currentTime (ticks (frames_100ms 17) st) = 7205759403792795 / 4503599627370496"
    by (rule advances [OF c16 a17]) (simp_all add: mm)
  have a18: "double (7205759403792795 / 4503599627370496 + 3602879701896397 / 36028797018963968) = 7656119366529845 / 4503599627370496"
    by (subst double_eval [where n = 52]) (simp_all add: nearest_even_def)
  have c18: "currentTime (ticks (frames_100ms 18) st) = 7656119366529845 / 4503599627370496"
    by (rule advances [OF c17 a18]) (simp_all add: mm)
  have a19: "double (7656119366529845 / 4503599627370496 + 3602879701896397 / 36028797018963968) = 8106479329266895 / 4503599627370496"
    by (subst double_eval [where n = 52]) (simp_all add: nearest_even_def)
  have c19: "currentTime (ticks (frames_100ms 19) st) = 8106479329266895 / 4503599627370496"
    by (rule advances [OF c18 a19]) (simp_all add: mm)
  have a20: "double (8106479329266895 / 4503599627370496 + 3602879701896397 / 36028797018963968) = 8556839292003945 / 4503599627370496"
    by (subst double_eval [where n = 52]) (simp_all add: nearest_even_def)
  have c20: "currentTime (ticks (frames_100ms 20) st) = 8556839292003945 / 4503599627370496"
    by (rule advances [OF c19 a20]) (simp_all add: mm)
  have a21: "double (8556839292003945 / 4503599627370496 + 3602879701896397 / 36028797018963968) = 4503599627370497 / 2251799813685248"
    by (subst double_eval [where n = 51]) (simp_all add: nearest_even_def)
  have c21: "currentTime (ticks (frames_100ms 21) st) = 4503599627370497 / 2251799813685248"
    by (rule advances [OF c20 a21]) (simp_all add: mm)
  have a22: "double (4503599627370497 / 2251799813685248 + 3602879701896397 / 36028797018963968) = 2364389804369511 / 1125899906842624"
    by (subst double_eval [where n = 51]) (simp_all add: nearest_even_def)
  have c22: "currentTime (ticks (frames_100ms 22) st) = 2364389804369511 / 1125899906842624"
    by (rule advances [OF c21 a22]) (simp_all add: mm)
  have a23: "double (2364389804369511 / 1125899906842624 + 3602879701896397 / 36028797018963968) = 4953959590107547 / 2251799813685248"
    by (subst double_eval [where n = 51]) (simp_all add: nearest_even_def)
  have c23: "currentTime (ticks (frames_100ms 23) st) = 4953959590107547 / 2251799813685248"
    by (rule advances [OF c22 a23]) (simp_all add: mm)
  have a24: "double (4953959590107547 / 2251799813685248 + 3602879701896397 / 36028797018963968) = 647392446434509 / 281474976710656"
    by (subst double_eval [where n = 51]) (simp_all add: nearest_even_def)
  have c24: "currentTime (ticks (frames_100ms 24) st) = 647392446434509 / 281474976710656"
    by (rule advances [OF c23 a24]) (simp_all add: mm)
  have a25: "double (647392446434509 / 281474976710656 + 3602879701896397 / 36028797018963968) = 5404319552844597 / 2251799813685248"
    by (subst double_eval [where n = 51]) (simp_all add: nearest_even_def)
  have c25: "currentTime (ticks (frames_100ms 25) st) = 5404319552844597 / 2251799813685248"
    by (rule advances [OF c24 a25]) (simp_all add: mm)
  have a26: "double (5404319552844597 / 2251799813685248 + 3602879701896397 / 36028797018963968) = 2814749767106561 / 1125899906842624"
    by (subst double_eval [where n = 51]) (simp_all add: nearest_even_def)
  have c26: "currentTime (ticks (frames_100ms 26) st) = 2814749767106561 / 1125899906842624"
    by (rule advances [OF c25 a26]) (simp_all add: mm)
  have a27: "double (2814749767106561 / 1125899906842624 + 3602879701896397 / 36028797018963968) = 5854679515581647 / 2251799813685248"
    by (subst double_eval [where n = 51]) (simp_all add: nearest_even_def)
  have c27: "currentTime (ticks (frames_100ms 27) st) = 5854679515581647 / 2251799813685248"
    by (rule advances [OF c26 a27]) (simp_all add: mm)
  have a28: "double (5854679515581647 / 2251799813685248 + 3602879701896397 / 36028797018963968) = 1519964874237543 / 562949953421312"
    by (subst double_eval [where n = 51]) (simp_all add: nearest_even_def)
  have c28: "currentTime (ticks (frames_100ms 28) st) = 1519964874237543 / 562949953421312"
    by (rule advances [OF c27 a28]) (simp_all add: mm)
  have a29: "double (1519964874237543 / 562949953421312 + 3602879701896397 / 36028797018963968) = 6305039478318697 / 2251799813685248"
    by (subst double_eval [where n = 51]) (simp_all add: nearest_even_def)
  have c29: "currentTime (ticks (frames_100ms 29) st) = 6305039478318697 / 2251799813685248"
    by (rule advances [OF c28 a29]) (simp_all add: mm)
  have a30: "double (6305039478318697 / 2251799813685248 + 3602879701896397 / 36028797018963968) = 3265109729843611 / 1125899906842624"
    by (subst double_eval [where n = 51]) (simp_all add: nearest_even_def)
  have c30: "currentTime (ticks (frames_100ms 30) st) = 3265109729843611 / 1125899906842624"
    by (rule advances [OF c29 a30]) (simp_all add: mm)
  have a31: "double (3265109729843611 / 1125899906842624 + 3602879701896397 / 36028797018963968) = 6755399441055747 / 2251799813685248"
    by (subst double_eval [where n = 51]) (simp_all add: nearest_even_def)
  have "currentTime (ticks (frames_100ms 31) st) = minTime st"
    by (rule tick_100ms_wraps [OF st(1,2,3) c30 a31]) (simp_all add: mm)
  then have c31: "currentTime (ticks (frames_100ms 31) st) = 0" by (simp only: mm)
  have h: "hd (frames_100ms 31) = 0" "last (frames_100ms 31) = 3000"
    by (simp_all add: frames_100ms_def last_map hd_map upt_conv_Cons)
  have b: "1 * ((3000 - 0) / 1000) < 3377699720527873 / 1125899906842624 - (0::real)" by simp
  show ?thesis
    unfolding st_def [symmetric]
    by (intro conjI st(1) st(2) mm sorted_frames_100ms h b c30 c31)
qed

text \<open>
  Claim C5, amended. Let the clock be playing at a multiplier \<open>m\<close> from 0 to 60 with
  doubles \<open>minTime \<le> maxTime\<close>, start at \<open>currentTime = minTime\<close> before its first frame
  with a request pending, and receive frames with non-decreasing timestamps
  (non-negative wall-clock deltas), the first at \<open>t0\<close>. Then:

  \<^item> after every frame \<open>currentTime\<close> lies in \<open>[minTime, maxTime]\<close>;

  \<^item> the first frame leaves it at \<open>minTime\<close>;

  \<^item> every later frame advances it to the double nearest to
    \<open>currentTime + deltaTime * m\<close>, where \<open>deltaTime\<close> is the difference of the timestamps
    divided by 1000 and the difference, the quotient and the product are rounded as
    well; whenever this advanced time exceeds \<open>maxTime\<close> the time after the frame is
    \<open>minTime\<close> (a hard loop, not a clamp), and otherwise it is the advanced time; so
    \<open>currentTime\<close> never decreases except by such a wrap;

  \<^item> after \<open>k\<close> further frames, \<open>T\<close> seconds after the first, with the tolerance
    \<open>k * (B / 2^53 + 65 / 2^1075) + 4 * m * T / 2^53\<close>, where \<open>B\<close> is the larger of
    \<open>|minTime|\<close> and \<open>|maxTime|\<close>: if \<open>minTime + m * T\<close> plus the tolerance does not
    exceed \<open>maxTime\<close>, then \<open>currentTime\<close> differs from \<open>minTime + m * T\<close> by at most
    the tolerance.

  That \<open>m * T < maxTime - minTime\<close> alone does not exclude a wrap. The bounds on the
  timestamps, the multiplier and the times are those of a browser and of the speed
  selector; they keep every result in the range of the finite doubles.
\<close>

theorem playback_clock:
  assumes "playing st" "0 \<le> speed st" "minTime st \<le> maxTime st"
    and "double (minTime st) = minTime st" "double (maxTime st) = maxTime st"
    and "currentTime st = minTime st" "lastTimestamp st = None" "frames st \<noteq> []"
    and "sorted (t0 # ts)"
    and "\<forall>t \<in> set (t0 # ts). 0 \<le> t \<and> t \<le> 2 ^ 53" "speed st \<le> 60"
    and "\<bar>minTime st\<bar> \<le> 2 ^ 1000" "\<bar>maxTime st\<bar> \<le> 2 ^ 1000"
  shows "(\<forall>k \<le> length (t0 # ts).
            minTime st \<le> currentTime (ticks (take k (t0 # ts)) st)
            \<and> currentTime (ticks (take k (t0 # ts)) st) \<le> maxTime st)
       \<and> currentTime (ticks [t0] st) = minTime st
       \<and> (\<forall>k < length ts.
            currentTime (ticks (take (Suc (Suc k)) (t0 # ts)) st)
              = (let now = currentTime (ticks (take (Suc k) (t0 # ts)) st);
                     deltaTime = double (double ((t0 # ts) ! Suc k - (t0 # ts) ! k) / 1000);
                     advanced = double (now + double (deltaTime * speed st))
                 in if maxTime st < advanced then minTime st else advanced)
            \<and> (currentTime (ticks (take (Suc k) (t0 # ts)) st)
                  \<le> currentTime (ticks (take (Suc (Suc k)) (t0 # ts)) st)
               \<or> currentTime (ticks (take (Suc (Suc k)) (t0 # ts)) st) = minTime st))
       \<and> (\<forall>k \<le> length ts.
            (let T = ((t0 # ts) ! k - t0) / 1000;
                 tolerance = real k * (max \<bar>minTime st\<bar> \<bar>maxTime st\<bar> / 2 ^ 53 + 65 / 2 ^ 1075)
                             + 4 * (speed st * T) / 2 ^ 53
             in minTime st + speed st * T + tolerance \<le> maxTime st \<longrightarrow>
                \<bar>currentTime (ticks (take (Suc k) (t0 # ts)) st) - (minTime st + speed st * T)\<bar>
                  \<le> tolerance))"
proof (intro conjI allI impI)
  fix k
  assume "k \<le> length (t0 # ts)"
  have s: "sorted (take k (t0 # ts))" using assms(9) by (rule sorted_wrt_take)
  from ticks_in_range [OF assms(1-4,6) s _ assms(8)] assms(7)
  show "minTime st \<le> currentTime (ticks (take k (t0 # ts)) st)"
    and "currentTime (ticks (take k (t0 # ts)) st) \<le> maxTime st" by simp_all
next
  show "currentTime (ticks [t0] st) = minTime st"
    using assms(1,3,4,6,7,8) by (simp add: ticks_def frame_time Let_def)
next
  fix k
  assume k: "k < length ts"
  let ?xs = "t0 # ts"
  let ?before = "ticks (take (Suc k) ?xs) st"
  have k': "Suc k < length ?xs" using k by simp
  note step = ticks_step [OF assms(1,8) k']
  have p: "playing ?before" "frames ?before \<noteq> []"
    using assms(1,8) by (simp_all add: ticks_fixed ticks_pending)
  show "currentTime (ticks (take (Suc (Suc k)) ?xs) st)
              = (let now = currentTime ?before;
                     deltaTime = double (double (?xs ! Suc k - ?xs ! k) / 1000);
                     advanced = double (now + double (deltaTime * speed st))
                 in if maxTime st < advanced then minTime st else advanced)"
    unfolding step(1) using p step(2) by (simp add: frame_time ticks_fixed Let_def)
  have s: "sorted (take (Suc k) ?xs)" using assms(9) by (rule sorted_wrt_take)
  from ticks_in_range [OF assms(1-4,6) s _ assms(8)] assms(7)
  have d: "double (currentTime ?before) = currentTime ?before" by simp
  have le: "?xs ! k \<le> ?xs ! Suc k" using assms(9) k' by (intro sorted_nth_mono) simp_all
  have "currentTime ?before \<le> currentTime (frame (?xs ! Suc k) ?before)
        \<or> currentTime (frame (?xs ! Suc k) ?before) = minTime ?before"
    using p assms(2) d le step(2) by (intro frame_monotone) (simp_all add: ticks_fixed)
  then show "currentTime ?before \<le> currentTime (ticks (take (Suc (Suc k)) ?xs) st)
               \<or> currentTime (ticks (take (Suc (Suc k)) ?xs) st) = minTime st"
    unfolding step(1) by (simp add: ticks_fixed)
next
  fix k
  assume k: "k \<le> length ts"
  let ?B = "max \<bar>minTime st\<bar> \<bar>maxTime st\<bar>"
  have B: "\<bar>minTime st\<bar> \<le> ?B" "\<bar>maxTime st\<bar> \<le> ?B" by simp_all
  note e = ticks_error [OF assms(1-9,11) B k, unfolded tiny]
  show "let T = ((t0 # ts) ! k - t0) / 1000;
            tolerance = real k * (?B / 2 ^ 53 + 65 / 2 ^ 1075) + 4 * (speed st * T) / 2 ^ 53
        in minTime st + speed st * T + tolerance \<le> maxTime st \<longrightarrow>
           \<bar>currentTime (ticks (take (Suc k) (t0 # ts)) st) - (minTime st + speed st * T)\<bar>
             \<le> tolerance"
    unfolding Let_def using e by (simp only: times_divide_eq_right mult_1_right) blast
qed

text \<open>
  Claim C5, amended, at the component mounted with the scenario trajectory (times 0 to
  10, speed 1): after the frame at 0 ms the time is 0; after the frames at 0 ms and
  100 ms it is the double next to 0.1, within \<open>11 / 2^53\<close> of 0.1 and inside the range;
  after the frames at 0 s and 4 s it is 4, and the frame at 11 s wraps it to 0.
\<close>

theorem playback_clock_witness:
  "currentTime (ticks [0] (onMounted [scenario_trip] created)) = 0
   \<and> currentTime (ticks [0, 100] (onMounted [scenario_trip] created))
       = 3602879701896397 / 36028797018963968
   \<and> \<bar>currentTime (ticks [0, 100] (onMounted [scenario_trip] created)) - 1 / 10\<bar>
       \<le> 11 / 2 ^ 53
   \<and> currentTime (ticks [0, 4000] (onMounted [scenario_trip] created)) = 4
   \<and> currentTime (ticks [0, 4000, 11000] (onMounted [scenario_trip] created)) = 0
   \<and> 0 \<le> currentTime (ticks [0, 100] (onMounted [scenario_trip] created))
   \<and> currentTime (ticks [0, 100] (onMounted [scenario_trip] created)) \<le> 10"
proof -
  define st where "st = onMounted [scenario_trip] created"
  have mm: "minTime st = 0" "maxTime st = 10" "speed st = 1"
    by (simp_all add: st_def onMounted_def recomputeRanges_def range_step_def init2D_def
        requestAnimationFrame_def created_def scenario_trip_def Let_def)
  have st: "playing st" "0 \<le> speed st" "minTime st \<le> maxTime st"
    "double (minTime st) = minTime st" "double (maxTime st) = maxTime st"
    "currentTime st = minTime st" "lastTimestamp st = None" "frames st \<noteq> []"
    and bd: "speed st \<le> 60" "\<bar>minTime st\<bar> \<le> 2 ^ 1000" "\<bar>maxTime st\<bar> \<le> 2 ^ 1000"
    by (simp_all add: mm double_10)
       (simp_all add: st_def onMounted_def recomputeRanges_def range_step_def init2D_def
        requestAnimationFrame_def created_def scenario_trip_def Let_def)
  have s1: "sorted [0, 100 :: real]" and s2: "sorted [0, 4000, 11000 :: real]"
    and r1: "\<forall>t \<in> set [0, 100 :: real]. 0 \<le> t \<and> t \<le> 2 ^ 53"
    and r2: "\<forall>t \<in> set [0, 4000, 11000 :: real]. 0 \<le> t \<and> t \<le> 2 ^ 53"
    by simp_all
  note a = playback_clock [OF st s1 r1 bd]
  from a have a0: "currentTime (ticks [0] st) = 0" by (simp add: mm)
  from a have "\<forall>k < length [100::real].
            currentTime (ticks (take (Suc (Suc k)) [0, 100]) st)
              = (let now = currentTime (ticks (take (Suc k) [0, 100]) st);
                     deltaTime = double (double ([0, 100] ! Suc k - [0, 100] ! k) / 1000);
                     advanced = double (now + double (deltaTime * speed st))
                 in if maxTime st < advanced then minTime st else advanced)"
    by blast
  from this [rule_format, of 0]
  have a1: "currentTime (ticks [0, 100] st) = 3602879701896397 / 36028797018963968"
    by (simp add: a0 mm Let_def double_100 double_tenth double_double_tenth)
  from a have "\<forall>k \<le> length [0, 100 :: real].
            minTime st \<le> currentTime (ticks (take k [0, 100]) st)
            \<and> currentTime (ticks (take k [0, 100]) st) \<le> maxTime st"
    by blast
  from this [rule_format, of 2]
  have r: "0 \<le> currentTime (ticks [0, 100] st)" "currentTime (ticks [0, 100] st) \<le> 10"
    by (simp_all add: mm)
  from a have "\<forall>k \<le> length [100::real].
            (let T = (([0, 100] ! k - 0) / 1000);
                 tolerance = real k * (max \<bar>minTime st\<bar> \<bar>maxTime st\<bar> / 2 ^ 53 + 65 / 2 ^ 1075)
                             + 4 * (speed st * T) / 2 ^ 53
             in minTime st + speed st * T + tolerance \<le> maxTime st \<longrightarrow>
                \<bar>currentTime (ticks (take (Suc k) [0, 100]) st) - (minTime st + speed st * T)\<bar>
                  \<le> tolerance)"
    by blast
  from this [rule_format, of 1]
  have t: "\<bar>currentTime (ticks [0, 100] st) - 1 / 10\<bar> \<le> 11 / 2 ^ 53"
    by (simp add: mm Let_def)
  note b = playback_clock [OF st s2 r2 bd]
  from b have step: "\<forall>k < length [4000, 11000 :: real].
            currentTime (ticks (take (Suc (Suc k)) [0, 4000, 11000]) st)
              = (let now = currentTime (ticks (take (Suc k) [0, 4000, 11000]) st);
                     deltaTime = double (double ([0, 4000, 11000] ! Suc k
                                                  - [0, 4000, 11000] ! k) / 1000);
                     advanced = double (now + double (deltaTime * speed st))
                 in if maxTime st < advanced then minTime st else advanced)"
    by blast
  from step [rule_format, of 0]
  have b1: "currentTime (ticks [0, 4000] st) = 4"
    by (simp add: a0 mm Let_def double_values)
  from step [rule_format, of 1]
  have b2: "currentTime (ticks [0, 4000, 11000] st) = 0"
    by (simp add: b1 mm Let_def double_values)
  from a0 a1 t b1 b2 r show ?thesis unfolding st_def by blast
qed

section \<open>The colour scale\<close>

lemma segmentColor_values:
  "segmentColor 0 0 = Inr [215, 25, 28, 220]" "segmentColor 0 1 = Inr [255, 255, 191, 220]"
  "segmentColor 1 0 = Inr [255, 255, 191, 220]" "segmentColor 1 1 = Inr [26, 150, 65, 220]"
  by (simp_all add: segmentColor_def elemAt_def stops_def Math_round_def)

lemma colorFromFraction_values:
  "colorFromFraction 0 = Inr [215, 25, 28, 220]"
  "colorFromFraction (1/2) = Inr [255, 255, 191, 220]"
  "colorFromFraction 1 = Inr [26, 150, 65, 220]"
  by (simp_all add: colorFromFraction_def clamp_def segmentColor_values)

lemma Math_round_near: "\<bar>real_of_int (Math_round v) - v\<bar> \<le> 1/2"
  unfolding Math_round_def by linarith

lemma near_bound:
  fixes r v c d :: real
  assumes "\<bar>r - v\<bar> \<le> 1/2" "\<bar>v - c\<bar> \<le> d"
  shows "\<bar>r - c\<bar> \<le> d + 1/2"
  using assms by linarith

lemma segment_low:
  assumes "0 \<le> x" "x < 1/2"
  shows "colorFromFraction x =
           Inr [Math_round (215 + 40 * (2 * x)), Math_round (25 + 230 * (2 * x)),
                Math_round (28 + 163 * (2 * x)), 220]"
proof -
  have "clamp x 0 1 = x" using assms by (simp add: clamp_def)
  moreover have "\<lfloor>x * 2\<rfloor> = 0" using assms by (simp add: floor_eq_iff)
  ultimately show ?thesis using assms
    by (simp add: colorFromFraction_def segmentColor_def elemAt_def stops_def mult.commute)
qed

lemma segment_high:
  assumes "1/2 \<le> x" "x \<le> 1"
  shows "colorFromFraction x =
           Inr [Math_round (255 - 229 * (2 * x - 1)), Math_round (255 - 105 * (2 * x - 1)),
                Math_round (191 - 126 * (2 * x - 1)), 220]"
proof -
  have c: "clamp x 0 1 = x" using assms by (simp add: clamp_def)
  have "1 \<le> \<lfloor>x * 2\<rfloor>" using assms by (simp add: le_floor_iff)
  then have "min 1 \<lfloor>x * 2\<rfloor> = 1" by simp
  with c assms show ?thesis
    by (simp add: colorFromFraction_def segmentColor_def elemAt_def stops_def mult.commute
        algebra_simps)
qed

text \<open>
  Claim C6. \<^verbatim>\<open>colorFromFraction\<close> depends on its input only through the clamp to
  \<open>[0, 1]\<close>. At 0, 0.5 and 1 it returns the three stops \<open>[215,25,28]\<close>, \<open>[255,255,191]\<close> and
  \<open>[26,150,65]\<close> with alpha 220; every input \<open>\<le> 0\<close> gives the low stop and every
  input \<open>\<ge> 1\<close> the high stop. For \<open>0 \<le> x < 0.5\<close> each channel is within one half of
  the line from the low stop to the middle stop at \<open>2x\<close>, and for \<open>0.5 \<le> x \<le> 1\<close> within
  one half of the line from the middle stop to the high stop at \<open>2x - 1\<close>. So on both
  sides of 0.5 each channel is within one half plus the slope of the line times the
  distance to 0.5 of the middle stop, which both segment formulas return at the
  boundary: the two segments agree there.
\<close>

theorem colorFromFraction_stops:
  "colorFromFraction x = colorFromFraction (clamp x 0 1)
   \<and> 0 \<le> clamp x 0 1 \<and> clamp x 0 1 \<le> 1
   \<and> colorFromFraction 0 = Inr [215, 25, 28, 220]
   \<and> colorFromFraction (1/2) = Inr [255, 255, 191, 220]
   \<and> colorFromFraction 1 = Inr [26, 150, 65, 220]
   \<and> (x \<le> 0 \<longrightarrow> colorFromFraction x = Inr [215, 25, 28, 220])
   \<and> (1 \<le> x \<longrightarrow> colorFromFraction x = Inr [26, 150, 65, 220])
   \<and> (0 \<le> x \<and> x < 1/2 \<longrightarrow>
        (\<exists>r g b. colorFromFraction x = Inr [r, g, b, 220]
           \<and> \<bar>real_of_int r - (215 + 40 * (2 * x))\<bar> \<le> 1/2
           \<and> \<bar>real_of_int g - (25 + 230 * (2 * x))\<bar> \<le> 1/2
           \<and> \<bar>real_of_int b - (28 + 163 * (2 * x))\<bar> \<le> 1/2
           \<and> \<bar>real_of_int r - 255\<bar> \<le> 40 * (1 - 2 * x) + 1/2
           \<and> \<bar>real_of_int g - 255\<bar> \<le> 230 * (1 - 2 * x) + 1/2
           \<and> \<bar>real_of_int b - 191\<bar> \<le> 163 * (1 - 2 * x) + 1/2))
   \<and> (1/2 \<le> x \<and> x \<le> 1 \<longrightarrow>
        (\<exists>r g b. colorFromFraction x = Inr [r, g, b, 220]
           \<and> \<bar>real_of_int r - (255 - 229 * (2 * x - 1))\<bar> \<le> 1/2
           \<and> \<bar>real_of_int g - (255 - 105 * (2 * x - 1))\<bar> \<le> 1/2
           \<and> \<bar>real_of_int b - (191 - 126 * (2 * x - 1))\<bar> \<le> 1/2
           \<and> \<bar>real_of_int r - 255\<bar> \<le> 229 * (2 * x - 1) + 1/2
           \<and> \<bar>real_of_int g - 255\<bar> \<le> 105 * (2 * x - 1) + 1/2
           \<and> \<bar>real_of_int b - 191\<bar> \<le> 126 * (2 * x - 1) + 1/2))
   \<and> segmentColor 0 1 = Inr [255, 255, 191, 220]
   \<and> segmentColor 1 0 = Inr [255, 255, 191, 220]"
proof -
  have idem: "clamp (clamp x 0 1) 0 1 = clamp x 0 1" by (simp add: clamp_def)
  have a: "colorFromFraction x = colorFromFraction (clamp x 0 1)"
    by (simp add: colorFromFraction_def idem)
  have lo: "x \<le> 0 \<Longrightarrow> clamp x 0 1 = 0"
    and hi: "1 \<le> x \<Longrightarrow> clamp x 0 1 = 1"
    by (simp_all add: clamp_def)
  have l: "x \<le> 0 \<longrightarrow> colorFromFraction x = Inr [215, 25, 28, 220]"
    using a lo colorFromFraction_values(1) by simp
  have h: "1 \<le> x \<longrightarrow> colorFromFraction x = Inr [26, 150, 65, 220]"
    using a hi colorFromFraction_values(3) by simp
  have r: "0 \<le> clamp x 0 1 \<and> clamp x 0 1 \<le> 1" by (simp add: clamp_def)
  have s0: "0 \<le> x \<and> x < 1/2 \<longrightarrow>
        (\<exists>r g b. colorFromFraction x = Inr [r, g, b, 220]
           \<and> \<bar>real_of_int r - (215 + 40 * (2 * x))\<bar> \<le> 1/2
           \<and> \<bar>real_of_int g - (25 + 230 * (2 * x))\<bar> \<le> 1/2
           \<and> \<bar>real_of_int b - (28 + 163 * (2 * x))\<bar> \<le> 1/2
           \<and> \<bar>real_of_int r - 255\<bar> \<le> 40 * (1 - 2 * x) + 1/2
           \<and> \<bar>real_of_int g - 255\<bar> \<le> 230 * (1 - 2 * x) + 1/2
           \<and> \<bar>real_of_int b - 191\<bar> \<le> 163 * (1 - 2 * x) + 1/2)"
  proof
    assume x: "0 \<le> x \<and> x < 1/2"
    let ?r = "Math_round (215 + 40 * (2 * x))" and ?g = "Math_round (25 + 230 * (2 * x))"
      and ?b = "Math_round (28 + 163 * (2 * x))"
    have c: "colorFromFraction x = Inr [?r, ?g, ?b, 220]" using x by (simp add: segment_low)
    have n: "\<bar>real_of_int ?r - (215 + 40 * (2 * x))\<bar> \<le> 1/2"
      "\<bar>real_of_int ?g - (25 + 230 * (2 * x))\<bar> \<le> 1/2"
      "\<bar>real_of_int ?b - (28 + 163 * (2 * x))\<bar> \<le> 1/2"
      by (rule Math_round_near)+
    have m: "\<bar>real_of_int ?r - 255\<bar> \<le> 40 * (1 - 2 * x) + 1/2"
      "\<bar>real_of_int ?g - 255\<bar> \<le> 230 * (1 - 2 * x) + 1/2"
      "\<bar>real_of_int ?b - 191\<bar> \<le> 163 * (1 - 2 * x) + 1/2"
    proof -
      from x have k: "\<bar>(215 + 40 * (2 * x)) - 255\<bar> \<le> 40 * (1 - 2 * x)"
        "\<bar>(25 + 230 * (2 * x)) - 255\<bar> \<le> 230 * (1 - 2 * x)"
        "\<bar>(28 + 163 * (2 * x)) - 191\<bar> \<le> 163 * (1 - 2 * x)"
        by (simp_all add: abs_le_iff)
      show "\<bar>real_of_int ?r - 255\<bar> \<le> 40 * (1 - 2 * x) + 1/2"
        "\<bar>real_of_int ?g - 255\<bar> \<le> 230 * (1 - 2 * x) + 1/2"
        "\<bar>real_of_int ?b - 191\<bar> \<le> 163 * (1 - 2 * x) + 1/2"
        by (rule near_bound [OF n(1) k(1)], rule near_bound [OF n(2) k(2)],
            rule near_bound [OF n(3) k(3)])
    qed
    from c n m show "\<exists>r g b. colorFromFraction x = Inr [r, g, b, 220]
           \<and> \<bar>real_of_int r - (215 + 40 * (2 * x))\<bar> \<le> 1/2
           \<and> \<bar>real_of_int g - (25 + 230 * (2 * x))\<bar> \<le> 1/2
           \<and> \<bar>real_of_int b - (28 + 163 * (2 * x))\<bar> \<le> 1/2
           \<and> \<bar>real_of_int r - 255\<bar> \<le> 40 * (1 - 2 * x) + 1/2
           \<and> \<bar>real_of_int g - 255\<bar> \<le> 230 * (1 - 2 * x) + 1/2
           \<and> \<bar>real_of_int b - 191\<bar> \<le> 163 * (1 - 2 * x) + 1/2" by blast
  qed
  have s1: "1/2 \<le> x \<and> x \<le> 1 \<longrightarrow>
        (\<exists>r g b. colorFromFraction x = Inr [r, g, b, 220]
           \<and> \<bar>real_of_int r - (255 - 229 * (2 * x - 1))\<bar> \<le> 1/2
           \<and> \<bar>real_of_int g - (255 - 105 * (2 * x - 1))\<bar> \<le> 1/2
           \<and> \<bar>real_of_int b - (191 - 126 * (2 * x - 1))\<bar> \<le> 1/2
           \<and> \<bar>real_of_int r - 255\<bar> \<le> 229 * (2 * x - 1) + 1/2
           \<and> \<bar>real_of_int g - 255\<bar> \<le> 105 * (2 * x - 1) + 1/2
           \<and> \<bar>real_of_int b - 191\<bar> \<le> 126 * (2 * x - 1) + 1/2)"
  proof
    assume x: "1/2 \<le> x \<and> x \<le> 1"
    let ?r = "Math_round (255 - 229 * (2 * x - 1))"
      and ?g = "Math_round (255 - 105 * (2 * x - 1))"
      and ?b = "Math_round (191 - 126 * (2 * x - 1))"
    have c: "colorFromFraction x = Inr [?r, ?g, ?b, 220]" using x by (simp add: segment_high)
    have n: "\<bar>real_of_int ?r - (255 - 229 * (2 * x - 1))\<bar> \<le> 1/2"
      "\<bar>real_of_int ?g - (255 - 105 * (2 * x - 1))\<bar> \<le> 1/2"
      "\<bar>real_of_int ?b - (191 - 126 * (2 * x - 1))\<bar> \<le> 1/2"
      by (rule Math_round_near)+
    have m: "\<bar>real_of_int ?r - 255\<bar> \<le> 229 * (2 * x - 1) + 1/2"
      "\<bar>real_of_int ?g - 255\<bar> \<le> 105 * (2 * x - 1) + 1/2"
      "\<bar>real_of_int ?b - 191\<bar> \<le> 126 * (2 * x - 1) + 1/2"
    proof -
      from x have k: "\<bar>(255 - 229 * (2 * x - 1)) - 255\<bar> \<le> 229 * (2 * x - 1)"
        "\<bar>(255 - 105 * (2 * x - 1)) - 255\<bar> \<le> 105 * (2 * x - 1)"
        "\<bar>(191 - 126 * (2 * x - 1)) - 191\<bar> \<le> 126 * (2 * x - 1)"
        by (simp_all add: abs_le_iff)
      show "\<bar>real_of_int ?r - 255\<bar> \<le> 229 * (2 * x - 1) + 1/2"
        "\<bar>real_of_int ?g - 255\<bar> \<le> 105 * (2 * x - 1) + 1/2"
        "\<bar>real_of_int ?b - 191\<bar> \<le> 126 * (2 * x - 1) + 1/2"
        by (rule near_bound [OF n(1) k(1)], rule near_bound [OF n(2) k(2)],
            rule near_bound [OF n(3) k(3)])
    qed
    from c n m show "\<exists>r g b. colorFromFraction x = Inr [r, g, b, 220]
           \<and> \<bar>real_of_int r - (255 - 229 * (2 * x - 1))\<bar> \<le> 1/2
           \<and> \<bar>real_of_int g - (255 - 105 * (2 * x - 1))\<bar> \<le> 1/2
           \<and> \<bar>real_of_int b - (191 - 126 * (2 * x - 1))\<bar> \<le> 1/2
           \<and> \<bar>real_of_int r - 255\<bar> \<le> 229 * (2 * x - 1) + 1/2
           \<and> \<bar>real_of_int g - 255\<bar> \<le> 105 * (2 * x - 1) + 1/2
           \<and> \<bar>real_of_int b - 191\<bar> \<le> 126 * (2 * x - 1) + 1/2" by blast
  qed
  show ?thesis
    by (intro conjI a l h s0 s1 colorFromFraction_values segmentColor_values(2,3)
        conjunct1 [OF r] conjunct2 [OF r])
qed

text \<open>
  Claim C6 at the inputs -3 and 7, and next to the boundary of the segments, at 0.49
  and at 0.51.
\<close>

theorem colorFromFraction_stops_witness:
  "colorFromFraction (- 3) = Inr [215, 25, 28, 220]
   \<and> colorFromFraction 7 = Inr [26, 150, 65, 220]
   \<and> (\<exists>r g b. colorFromFraction (49/100) = Inr [r, g, b, 220]
         \<and> \<bar>real_of_int r - 255\<bar> \<le> 13/10 \<and> \<bar>real_of_int g - 255\<bar> \<le> 51/10
         \<and> \<bar>real_of_int b - 191\<bar> \<le> 376/100)
   \<and> (\<exists>r g b. colorFromFraction (51/100) = Inr [r, g, b, 220]
         \<and> \<bar>real_of_int r - 255\<bar> \<le> 508/100 \<and> \<bar>real_of_int g - 255\<bar> \<le> 26/10
         \<and> \<bar>real_of_int b - 191\<bar> \<le> 302/100)"
proof -
  from colorFromFraction_stops [of "- 3"]
  have a: "colorFromFraction (- 3) = Inr [215, 25, 28, 220]" by force
  from colorFromFraction_stops [of 7]
  have b: "colorFromFraction 7 = Inr [26, 150, 65, 220]" by force
  from colorFromFraction_stops [of "49/100"]
  have c: "\<exists>r g b. colorFromFraction (49/100) = Inr [r, g, b, 220]
         \<and> \<bar>real_of_int r - 255\<bar> \<le> 13/10 \<and> \<bar>real_of_int g - 255\<bar> \<le> 51/10
         \<and> \<bar>real_of_int b - 191\<bar> \<le> 376/100" by force
  from colorFromFraction_stops [of "51/100"]
  have d: "\<exists>r g b. colorFromFraction (51/100) = Inr [r, g, b, 220]
         \<and> \<bar>real_of_int r - 255\<bar> \<le> 508/100 \<and> \<bar>real_of_int g - 255\<bar> \<le> 26/10
         \<and> \<bar>real_of_int b - 191\<bar> \<le> 302/100" by force
  from a b c d show ?thesis by blast
qed

section \<open>The vehicle layers\<close>

text \<open>An assignment, once made, stays: the loop only adds keys to the map.\<close>

lemma visit_grows:
  "visit now random trip st = Some (r, st1) \<Longrightarrow>
     vehicleCarAssignments st \<subseteq>\<^sub>m vehicleCarAssignments st1"
  by (auto simp: visit_def Let_def map_le_def split: option.splits sum.splits prod.splits)

lemma forEach_grows:
  "forEach (visit now random) trips st = Some (r, st1) \<Longrightarrow>
     vehicleCarAssignments st \<subseteq>\<^sub>m vehicleCarAssignments st1"
proof (induction trips arbitrary: st)
  case Nil
  then show ?case by simp
next
  case (Cons trip rest)
  then show ?case
    by (auto split: option.splits prod.splits dest!: visit_grows intro: map_le_trans)
qed

lemma visit_again:
  assumes "visit now random trip st = Some (r, st1)"
    and "vehicleCarAssignments st1 \<subseteq>\<^sub>m m"
  shows "visit now random' trip (st\<lparr>vehicleCarAssignments := m, randomCalls := k\<rparr>)
           = Some (r, st1\<lparr>vehicleCarAssignments := m, randomCalls := k\<rparr>)"
proof (cases "interpolateSample trip now")
  case None
  with assms show ?thesis by (simp add: visit_def)
next
  case (Some a)
  show ?thesis
  proof (cases a)
    case (Inl e)
    with Some assms show ?thesis by (auto simp: visit_def)
  next
    case (Inr b)
    show ?thesis
    proof (cases b)
      case None
      with Some Inr assms show ?thesis by (auto simp: visit_def)
    next
      case (Some sample)
      note s = \<open>interpolateSample trip now = Some a\<close> Inr Some
      obtain lon lat where p: "pos sample = (lon, lat)" by (cases "pos sample")
      define c where "c = (case vehicleCarAssignments st (trip_id trip) of
                        None \<Rightarrow> \<lfloor>random (randomCalls st) * 7\<rfloor> + 1 | Some c \<Rightarrow> c)"
      have c1: "vehicleCarAssignments st1 (trip_id trip) = Some c"
        using assms(1) s p
        by (auto simp: visit_def c_def Let_def split: option.splits)
      then have m: "m (trip_id trip) = Some c"
        using assms(2) by (auto simp: map_le_def dom_def)
      show ?thesis
        using assms(1) s p m
        by (auto simp: visit_def c_def Let_def split: option.splits)
    qed
  qed
qed

lemma forEach_again:
  assumes "forEach (visit now random) trips st = Some (r, st1)"
    and "vehicleCarAssignments st1 \<subseteq>\<^sub>m m"
  shows "forEach (visit now random') trips (st\<lparr>vehicleCarAssignments := m, randomCalls := k\<rparr>)
           = Some (r, st1\<lparr>vehicleCarAssignments := m, randomCalls := k\<rparr>)"
  using assms
proof (induction trips arbitrary: st)
  case Nil
  then show ?case by auto
next
  case (Cons trip rest)
  from Cons.prems(1) obtain r0 st0 where v: "visit now random trip st = Some (r0, st0)"
    by (auto split: option.splits)
  show ?case
  proof (cases r0)
    case (Some e)
    with v Cons.prems have "st1 = st0" "r = Some e" by auto
    with v Cons.prems(2) Some show ?thesis
      using visit_again [of now random trip st r0 st0 m random' k] by simp
  next
    case None
    with v Cons.prems(1) have rest: "forEach (visit now random) rest st0 = Some (r, st1)"
      by simp
    from forEach_grows [OF rest] Cons.prems(2)
    have "vehicleCarAssignments st0 \<subseteq>\<^sub>m m" by (rule map_le_trans)
    from visit_again [OF v this, of random' k] None Cons.IH [OF rest Cons.prems(2)]
    show ?thesis by simp
  qed
qed


text \<open>
  Claim C7. Let a computation of the vehicle layers at a playback time and a trips
  dataset return (or throw) \<open>out\<close> and leave the assignments \<open>m1\<close>. Then every later
  computation at the same time and dataset, started with these assignments or with
  more, gives the same \<open>out\<close>, whatever values \<^verbatim>\<open>Math.random\<close> would return; it
  changes no assignment and draws no random number. (The closed-edge set is not read.)
\<close>

theorem recompute_same_output:
  assumes "getVehiclesData3D trips now random (m, k) = Some (out, m1, k1)"
    and "m1 \<subseteq>\<^sub>m m2"
  shows "getVehiclesData3D trips now random' (m2, k2) = Some (out, m2, k2)"
proof -
  let ?st = "\<lparr>vehiclesByCarModel =
                   [1 \<mapsto> [], 2 \<mapsto> [], 3 \<mapsto> [], 4 \<mapsto> [], 5 \<mapsto> [], 6 \<mapsto> [], 7 \<mapsto> []],
                 vehicleCarAssignments = m, randomCalls = k\<rparr>"
  from assms(1) obtain r st1 where f: "forEach (visit now random) trips ?st = Some (r, st1)"
    and o: "out = (case r of Some e \<Rightarrow> Inl e | None \<Rightarrow> Inr (vehiclesByCarModel st1))"
    and m1: "m1 = vehicleCarAssignments st1"
    by (auto simp: getVehiclesData3D_def split: option.splits prod.splits)
  from forEach_again [OF f, of m2 random' k2] assms(2) m1
  have "forEach (visit now random') trips (?st\<lparr>vehicleCarAssignments := m2, randomCalls := k2\<rparr>)
           = Some (r, st1\<lparr>vehicleCarAssignments := m2, randomCalls := k2\<rparr>)" by simp
  then show ?thesis using o
    by (simp add: getVehiclesData3D_def split: option.splits)
qed


lemma scenario_at_5: "interpolateSample scenario_trip 5 = Some (Inr (Some \<lparr>pos = (1/2, 1/2), spd_mps = 15, ratio = 1/2, angle = 45\<rparr>))"
  by (simp add: interpolateSample_def scenario_trip_def bsearch.simps elemAt_def interpolate_def or0_def Let_def)
lemma three_at_5: "interpolateSample three_trip 5 = Some (Inr (Some \<lparr>pos = (3, 7), spd_mps = 0, ratio = 1/2, angle = 0\<rparr>))"
  by (simp add: interpolateSample_def three_trip_def bsearch.simps elemAt_def interpolate_def or0_def shr1_def toInt32_def Let_def)

lemma first_run: "getVehiclesData3D two_trips 5 dice (Map.empty, 0) =
    Some (Inr [1 \<mapsto> [\<lparr>position = (1/2, 1/2, 0), v_angle = 225, v_id = ''veh0''\<rparr>],
               2 \<mapsto> [], 3 \<mapsto> [], 4 \<mapsto> [], 5 \<mapsto> [], 6 \<mapsto> [],
               7 \<mapsto> [\<lparr>position = (3, 7, 0), v_angle = 180, v_id = ''veh1''\<rparr>]],
          [''veh0'' \<mapsto> 1, ''veh1'' \<mapsto> 7], 2)"
  apply (simp add: getVehiclesData3D_def two_trips_def visit_def scenario_at_5 three_at_5 dice_def)
  apply (simp add: scenario_trip_def three_trip_def)
  apply (rule ext)
  apply simp
  done


text \<open>
  Claim C7 at two trips on the road at time 5: the first computation draws the models 1
  and 7, the second one, with another source of random numbers, gives the same layers.
\<close>

theorem recompute_same_output_witness:
  "getVehiclesData3D two_trips 5 dice (Map.empty, 0) =
    Some (Inr [1 \<mapsto> [\<lparr>position = (1/2, 1/2, 0), v_angle = 225, v_id = ''veh0''\<rparr>],
               2 \<mapsto> [], 3 \<mapsto> [], 4 \<mapsto> [], 5 \<mapsto> [], 6 \<mapsto> [],
               7 \<mapsto> [\<lparr>position = (3, 7, 0), v_angle = 180, v_id = ''veh1''\<rparr>]],
          [''veh0'' \<mapsto> 1, ''veh1'' \<mapsto> 7], 2)
   \<and> getVehiclesData3D two_trips 5 other_dice ([''veh0'' \<mapsto> 1, ''veh1'' \<mapsto> 7], 2) =
    Some (Inr [1 \<mapsto> [\<lparr>position = (1/2, 1/2, 0), v_angle = 225, v_id = ''veh0''\<rparr>],
               2 \<mapsto> [], 3 \<mapsto> [], 4 \<mapsto> [], 5 \<mapsto> [], 6 \<mapsto> [],
               7 \<mapsto> [\<lparr>position = (3, 7, 0), v_angle = 180, v_id = ''veh1''\<rparr>]],
          [''veh0'' \<mapsto> 1, ''veh1'' \<mapsto> 7], 2)"
  using first_run recompute_same_output [OF first_run map_le_refl, of other_dice 2] by simp

text \<open>
  The first computation itself does depend on the random numbers: started without
  assignments, two sources of random numbers give different layers.
\<close>

lemma run_other: "getVehiclesData3D two_trips 5 other_dice (Map.empty, 0) =
    Some (Inr [1 \<mapsto> [], 2 \<mapsto> [], 3 \<mapsto> [],
               4 \<mapsto> [\<lparr>position = (1/2, 1/2, 0), v_angle = 225, v_id = ''veh0''\<rparr>,
                     \<lparr>position = (3, 7, 0), v_angle = 180, v_id = ''veh1''\<rparr>],
               5 \<mapsto> [], 6 \<mapsto> [], 7 \<mapsto> []],
          [''veh0'' \<mapsto> 4, ''veh1'' \<mapsto> 4], 2)"
  apply (simp add: getVehiclesData3D_def two_trips_def visit_def scenario_at_5 three_at_5 other_dice_def)
  apply (simp add: scenario_trip_def three_trip_def)
  apply (rule ext)
  apply simp
  done

lemma first_run_depends_on_random:
  "getVehiclesData3D two_trips 5 dice (Map.empty, 0)
     \<noteq> getVehiclesData3D two_trips 5 other_dice (Map.empty, 0)"
proof
  assume "getVehiclesData3D two_trips 5 dice (Map.empty, 0)
     = getVehiclesData3D two_trips 5 other_dice (Map.empty, 0)"
  then have "[''veh0'' \<mapsto> (1::int), ''veh1'' \<mapsto> 7] = [''veh0'' \<mapsto> 4, ''veh1'' \<mapsto> 4]"
    unfolding first_run run_other by simp
  then have "[''veh0'' \<mapsto> (1::int), ''veh1'' \<mapsto> 7] ''veh1'' = [''veh0'' \<mapsto> (4::int), ''veh1'' \<mapsto> 4] ''veh1''"
    by simp
  then show False by simp
qed

section \<open>Switching the view mode\<close>

lemmas lifecycle_defs = onMounted_def recomputeRanges_def init2D_def init3D_def cleanup2D_def
  cleanup3D_def switchMode_begin_def switchMode_resume_def select_mode_def timeout_fires_def
  created_def requestAnimationFrame_def cancelAnimationFrame_def Let_def

lemma mounted_component:
  "onMounted [] created =
     created\<lparr>deckgl := Some 1, live := [1], frames := [2], animationFrameId := Some 2,
              fresh := 3\<rparr>"
  by (simp add: lifecycle_defs)

text \<open>
  Claim C8 at two switches in rapid succession. The mounted component has one live
  engine. The user selects 3D and, before the timer of that switch fires, 2D again:
  both calls of \<^verbatim>\<open>switchMode\<close> have destroyed what there was and wait. When the two
  timers fire, each call constructs a DeckGL object and requests a frame: two engines
  (3 and 5) are live, the variable \<^verbatim>\<open>deckgl\<close> refers to the second only, and two frame
  requests (4 and 6) are pending. A later switch destroys engine 5 and leaves engine 3
  live. When the first timer fires before the second selection, one engine is live.
\<close>

theorem rapid_switches_two_backends:
  "live (onMounted [] created) = [1]
   \<and> live (select_mode Mode2D (select_mode Mode3D (onMounted [] created))) = []
   \<and> timeouts (select_mode Mode2D (select_mode Mode3D (onMounted [] created))) = 2
   \<and> live rapid_switches = [3, 5]
   \<and> deckgl rapid_switches = Some 5 \<and> map' rapid_switches = None
   \<and> frames rapid_switches = [4, 6] \<and> animationFrameId rapid_switches = Some 6
   \<and> timeouts rapid_switches = 0
   \<and> live (timeout_fires (select_mode Mode3D rapid_switches)) = [3, 7]
   \<and> live spaced_switches = [6] \<and> frames spaced_switches = [7]"
  by (simp add: rapid_switches_def spaced_switches_def lifecycle_defs)

text \<open>
  Switches that do not overlap keep the component settled: a selection whose timer fires
  before the next selection leaves at most one live engine.
\<close>

lemma cleanup_all:
  assumes "length (live s) \<le> 1"
    and "set (live s) = set_option (map' s) \<union> set_option (deckgl s)"
  shows "live (cleanup2D (cleanup3D s)) = []"
    and "map' (cleanup2D (cleanup3D s)) = None" and "deckgl (cleanup2D (cleanup3D s)) = None"
    and "timeouts (cleanup2D (cleanup3D s)) = timeouts s"
    and "mode (cleanup2D (cleanup3D s)) = mode s"
proof -
  show "live (cleanup2D (cleanup3D s)) = []"
  proof (cases "live s")
    case Nil
    then show ?thesis by (simp add: cleanup2D_def cleanup3D_def Let_def split: option.splits)
  next
    case (Cons h hs)
    with assms(1) have "live s = [h]" by simp
    with assms(2) show ?thesis
      by (auto simp: cleanup2D_def cleanup3D_def Let_def split: option.splits)
  qed
qed (simp_all add: cleanup2D_def cleanup3D_def Let_def split: option.splits)

lemma switchMode_begin_clears:
  assumes "settled st"
  shows "live (switchMode_begin st) = []" "map' (switchMode_begin st) = None"
    "deckgl (switchMode_begin st) = None" "timeouts (switchMode_begin st) = 1"
    "mode (switchMode_begin st) = mode st"
proof -
  define s where "s = (case animationFrameId st of
                   Some h \<Rightarrow> if h \<noteq> 0
                             then (cancelAnimationFrame h st)\<lparr>animationFrameId := None\<rparr>
                             else st
                 | None \<Rightarrow> st)\<lparr>lastTimestamp := None\<rparr>"
  have s: "live s = live st" "map' s = map' st" "deckgl s = deckgl st"
    "timeouts s = timeouts st" "mode s = mode st"
    by (simp_all add: s_def cancelAnimationFrame_def split: option.splits)
  have b: "switchMode_begin st
             = (cleanup2D (cleanup3D s))\<lparr>timeouts := timeouts (cleanup2D (cleanup3D s)) + 1\<rparr>"
    by (simp add: switchMode_begin_def s_def Let_def)
  have l: "length (live s) \<le> 1" "set (live s) = set_option (map' s) \<union> set_option (deckgl s)"
    using assms by (simp_all add: settled_def s)
  show "live (switchMode_begin st) = []" "map' (switchMode_begin st) = None"
    "deckgl (switchMode_begin st) = None" "timeouts (switchMode_begin st) = 1"
    "mode (switchMode_begin st) = mode st"
    using cleanup_all [OF l] assms by (simp_all add: b s settled_def)
qed

lemma switchMode_resume_settles:
  assumes "live s = []" "map' s = None" "deckgl s = None" "timeouts s = 0"
  shows "settled (switchMode_resume s)"
  using assms
  by (simp add: switchMode_resume_def init2D_def init3D_def requestAnimationFrame_def
      settled_def Let_def)

lemma spaced_switch_one_backend:
  assumes "settled st"
  shows "settled (timeout_fires (select_mode m st))"
proof (cases "m = mode st")
  case True
  with assms show ?thesis by (simp add: select_mode_def timeout_fires_def settled_def)
next
  case False
  have st': "settled (st\<lparr>mode := m\<rparr>)" using assms by (simp add: settled_def)
  note c = switchMode_begin_clears [OF st']
  have "timeout_fires (select_mode m st)
          = switchMode_resume ((switchMode_begin (st\<lparr>mode := m\<rparr>))\<lparr>timeouts := 0\<rparr>)"
    using False c(4) by (simp add: select_mode_def timeout_fires_def)
  moreover have "settled (switchMode_resume ((switchMode_begin (st\<lparr>mode := m\<rparr>))\<lparr>timeouts := 0\<rparr>))"
    using c by (intro switchMode_resume_settles) simp_all
  ultimately show ?thesis by simp
qed

section \<open>Junctions of the network\<close>

lemma mapThrowing_Inr:
  assumes "\<And>x. x \<in> set xs \<Longrightarrow> f x = Inr (g x)"
  shows "mapThrowing f xs = Inr (map g xs)"
  using assms by (induction xs) simp_all

lemma toPolygon_junction:
  assumes "isJunctionRecord fo"
  shows "toPolygon fo = Inr ((the fo)\<lparr>geometry := Some \<lparr>gtype = ''Polygon'',
           coordinates = Some (Arr [the (coordinates (the (geometry (the fo))))])\<rparr>\<rparr>)"
  using assms
  by (auto simp: isJunctionRecord_def toPolygon_def split: option.splits coords.splits)

lemma junctionFeatures_eq:
  "junctionFeatures fs =
     Inr (map (\<lambda>fo. (the fo)\<lparr>geometry := Some \<lparr>gtype = ''Polygon'',
                coordinates = Some (Arr [the (coordinates (the (geometry (the fo))))])\<rparr>\<rparr>)
            (filter isJunctionRecord fs))"
  unfolding junctionFeatures_def
  by (rule mapThrowing_Inr) (simp add: toPolygon_junction)

text \<open>
  Claim C9, amended. The conversion of the junctions never throws. A feature is among
  the emitted junction polygons exactly when it comes from a record of the collection
  whose \<^verbatim>\<open>element\<close> is \<^verbatim>\<open>junction\<close> and whose coordinates are an array of more than
  two entries, equal entries counted as often as they occur; it is that record with the
  geometry replaced by a \<^verbatim>\<open>Polygon\<close> whose only ring is the array of the record's
  coordinates. These are the junctions of the network whenever one is returned.
\<close>

theorem junction_rule:
  "\<exists>js. junctionFeatures fs = Inr js
     \<and> (\<forall>g. g \<in> set js \<longleftrightarrow>
          (\<exists>f p geo cs. Some f \<in> set fs \<and> properties f = Some p
             \<and> element p = Some ''junction''
             \<and> geometry f = Some geo \<and> coordinates geo = Some (Arr cs) \<and> length cs > 2
             \<and> g = f\<lparr>geometry := Some \<lparr>gtype = ''Polygon'',
                                        coordinates = Some (Arr [Arr cs])\<rparr>\<rparr>))
     \<and> (\<forall>lanesPart c net.
           features c = Some fs \<and> prepareSumoNetworkGeojson lanesPart (Some c) = Some net
           \<longrightarrow> junctions net = js)"
proof -
  let ?conv = "\<lambda>fo. (the fo)\<lparr>geometry := Some \<lparr>gtype = ''Polygon'',
                coordinates = Some (Arr [the (coordinates (the (geometry (the fo))))])\<rparr>\<rparr>"
  let ?js = "map ?conv (filter isJunctionRecord fs)"
  have 1: "junctionFeatures fs = Inr ?js" by (rule junctionFeatures_eq)
  have 2: "g \<in> set ?js \<longleftrightarrow>
          (\<exists>f p geo cs. Some f \<in> set fs \<and> properties f = Some p
             \<and> element p = Some ''junction''
             \<and> geometry f = Some geo \<and> coordinates geo = Some (Arr cs) \<and> length cs > 2
             \<and> g = f\<lparr>geometry := Some \<lparr>gtype = ''Polygon'',
                                        coordinates = Some (Arr [Arr cs])\<rparr>\<rparr>)"
    (is "?L \<longleftrightarrow> ?R") for g
  proof
    assume ?L
    then obtain fo where fo: "fo \<in> set fs" "isJunctionRecord fo" "g = ?conv fo" by auto
    then show ?R
      by (auto simp: isJunctionRecord_def split: option.splits coords.splits)
  next
    assume ?R
    then obtain f p geo cs where h: "Some f \<in> set fs" "properties f = Some p"
      "element p = Some ''junction''" "geometry f = Some geo" "coordinates geo = Some (Arr cs)"
      "length cs > 2"
      "g = f\<lparr>geometry := Some \<lparr>gtype = ''Polygon'', coordinates = Some (Arr [Arr cs])\<rparr>\<rparr>"
      by blast
    then have "isJunctionRecord (Some f)" "g = ?conv (Some f)"
      by (simp_all add: isJunctionRecord_def)
    with h(1) show ?L by (auto simp: image_iff intro!: bexI [of _ "Some f"])
  qed
  have 3: "junctions net = ?js"
    if "features c = Some fs \<and> prepareSumoNetworkGeojson lanesPart (Some c) = Some net"
    for lanesPart :: "feature option list \<Rightarrow> js_error + 'a" and c net
    using that 1
    by (auto simp: prepareSumoNetworkGeojson_def split: if_splits sum.splits)
  from 1 2 3 show ?thesis by blast
qed

text \<open>
  Claim C9, amended, at a collection of a record with three coordinates, a \<^verbatim>\<open>null\<close>
  and a record with two coordinates: the first record alone is converted.
\<close>

theorem junction_rule_witness:
  "\<exists>js net. junctionFeatures [Some repeated_junction, None, Some short_junction] = Inr js
     \<and> set js = {repeated_junction\<lparr>geometry := Some \<lparr>gtype = ''Polygon'',
          coordinates = Some (Arr [Arr [Arr [Num 0, Num 0], Arr [Num 0, Num 0],
                                        Arr [Num 1, Num 1]]])\<rparr>\<rparr>}
     \<and> prepareSumoNetworkGeojson no_lanes junction_collection = Some net
     \<and> junctions net = js"
proof -
  from junction_rule [of "[Some repeated_junction, None, Some short_junction]"]
  obtain js where js: "junctionFeatures [Some repeated_junction, None, Some short_junction] = Inr js"
    and m: "\<And>g. g \<in> set js \<longleftrightarrow>
          (\<exists>f p geo cs. Some f \<in> set [Some repeated_junction, None, Some short_junction]
             \<and> properties f = Some p \<and> element p = Some ''junction''
             \<and> geometry f = Some geo \<and> coordinates geo = Some (Arr cs) \<and> length cs > 2
             \<and> g = f\<lparr>geometry := Some \<lparr>gtype = ''Polygon'',
                                        coordinates = Some (Arr [Arr cs])\<rparr>\<rparr>)"
    by blast
  have p: "prepareSumoNetworkGeojson no_lanes junction_collection
             = Some \<lparr>lanes_arrows = (), junctions = js\<rparr>"
    using js by (simp add: prepareSumoNetworkGeojson_def junction_collection_def no_lanes_def)
  have "set js = {repeated_junction\<lparr>geometry := Some \<lparr>gtype = ''Polygon'',
          coordinates = Some (Arr [Arr [Arr [Num 0, Num 0], Arr [Num 0, Num 0],
                                        Arr [Num 1, Num 1]]])\<rparr>\<rparr>}"
    unfolding set_eq_iff m
    by (auto simp: repeated_junction_def short_junction_def)
  with js p show ?thesis by simp
qed

text \<open>
  Claim C9, as stated, at the record with the coordinates \<open>(0,0)\<close>, \<open>(0,0)\<close>, \<open>(1,1)\<close>:
  it has two distinct coordinates, not more than two, and is converted; and the ring
  of the emitted polygon starts at \<open>(0,0)\<close> and ends at \<open>(1,1)\<close>, so it is not closed.
\<close>

theorem repeated_junction_converted:
  "prepareSumoNetworkGeojson no_lanes junction_collection =
     Some \<lparr>lanes_arrows = (),
           junctions = [repeated_junction\<lparr>geometry := Some \<lparr>gtype = ''Polygon'',
              coordinates = Some (Arr [Arr [Arr [Num 0, Num 0], Arr [Num 0, Num 0],
                                            Arr [Num 1, Num 1]]])\<rparr>\<rparr>]\<rparr>
   \<and> card (set [Arr [Num 0, Num 0], Arr [Num 0, Num 0], Arr [Num 1, Num 1]]) = 2
   \<and> hd [Arr [Num 0, Num 0], Arr [Num 0, Num 0], Arr [Num 1, Num 1]]
        \<noteq> last [Arr [Num 0, Num 0], Arr [Num 0, Num 0], Arr [Num 1, Num 1]]"
  by (simp add: prepareSumoNetworkGeojson_def junction_collection_def junctionFeatures_def
      isJunctionRecord_def toPolygon_def repeated_junction_def short_junction_def no_lanes_def)

end
